theory Spec2Isabelle
  imports Main
begin

section \<open>Parsed notebook documents\<close>

text \<open>
  \<^verbatim>\<open>sanitize_ipynb.py\<close> works on the value that \<^verbatim>\<open>json.loads\<close> returns: \<^verbatim>\<open>None\<close>,
  \<^verbatim>\<open>bool\<close>, \<^verbatim>\<open>int\<close>, \<^verbatim>\<open>float\<close>, \<^verbatim>\<open>str\<close>, \<^verbatim>\<open>list\<close> and \<^verbatim>\<open>dict\<close>.
  A \<^verbatim>\<open>dict\<close> keeps its keys in insertion order, so it is an association list; the
  value of a key is the first binding of that key (\<open>map_of\<close>), and a list that comes
  from \<^verbatim>\<open>json.loads\<close> binds every key once.  A \<^verbatim>\<open>float\<close> is carried as the text
  that Python prints for it (\<^verbatim>\<open>repr\<close>, the shortest text that reads back as the same
  float, such as \<^verbatim>\<open>4.0\<close> or \<^verbatim>\<open>nan\<close>): the program only compares a float with
  \<^verbatim>\<open>4\<close>, tests its truth value and prints it, and all three are functions of that text.
  Characters are \<open>char\<close>, which covers the code points below 256.
\<close>

datatype json =
    JNull
  | JBool bool
  | JInt int
  | JFloat string
  | JStr string
  | JList "json list"
  | JDict "(string \<times> json) list"

type_synonym dict = "(string \<times> json) list"

datatype py_error = AttributeError | KeyError | RecursionError

subsection \<open>Python's type tests, truth value and comparison with 4\<close>

text \<open>\<^verbatim>\<open>isinstance(x, str)\<close>, \<^verbatim>\<open>isinstance(x, list)\<close>, \<^verbatim>\<open>isinstance(x, dict)\<close>.\<close>

fun is_str :: "json \<Rightarrow> bool" where
  "is_str (JStr s) = True"
| "is_str x = False"

fun is_list :: "json \<Rightarrow> bool" where
  "is_list (JList xs) = True"
| "is_list x = False"

fun is_dict :: "json \<Rightarrow> bool" where
  "is_dict (JDict d) = True"
| "is_dict x = False"

text \<open>\<^verbatim>\<open>isinstance(x, int)\<close>: in Python \<^verbatim>\<open>bool\<close> is a subclass of \<^verbatim>\<open>int\<close>, so
  \<^verbatim>\<open>True\<close> and \<^verbatim>\<open>False\<close> pass the test; a float does not.\<close>

fun is_int :: "json \<Rightarrow> bool" where
  "is_int (JInt i) = True"
| "is_int (JBool b) = True"
| "is_int x = False"

text \<open>\<^verbatim>\<open>bool(x)\<close>, the test behind \<^verbatim>\<open>if x\<close>, \<^verbatim>\<open>not x\<close> and \<^verbatim>\<open>x or y\<close>.\<close>

fun truthy :: "json \<Rightarrow> bool" where
  "truthy JNull = False"
| "truthy (JBool b) = b"
| "truthy (JInt i) = (i \<noteq> 0)"
| "truthy (JFloat r) = (r \<noteq> ''0.0'' \<and> r \<noteq> ''-0.0'')"
| "truthy (JStr s) = (s \<noteq> [])"
| "truthy (JList xs) = (xs \<noteq> [])"
| "truthy (JDict d) = (d \<noteq> [])"

text \<open>\<^verbatim>\<open>x == 4\<close>: the integer 4 and the float 4.0 are equal to 4, nothing else is
  (\<^verbatim>\<open>True == 1\<close> and \<^verbatim>\<open>False == 0\<close>).\<close>

fun eq_4 :: "json \<Rightarrow> bool" where
  "eq_4 (JInt i) = (i = 4)"
| "eq_4 (JFloat r) = (r = ''4.0'')"
| "eq_4 x = False"

subsection \<open>Python's \<^verbatim>\<open>str\<close> and \<^verbatim>\<open>repr\<close>\<close>

text \<open>First the text that \<^verbatim>\<open>repr\<close> and \<^verbatim>\<open>str\<close> return, when they return
  (\<open>repr_text\<close>, \<open>str_text\<close>); then the calls themselves (\<open>py_repr\<close>,
  \<open>py_str\<close>), which raise \<^verbatim>\<open>RecursionError\<close> when the value is nested deeper than
  the interpreter admits.\<close>

definition digit_char :: "nat \<Rightarrow> char" where
  "digit_char d = ''0123456789abcdef'' ! (d mod 16)"

fun str_nat :: "nat \<Rightarrow> string" where
  "str_nat n = (if n < 10 then [digit_char n] else str_nat (n div 10) @ [digit_char (n mod 10)])"

declare str_nat.simps [simp del]

definition str_int :: "int \<Rightarrow> string" where
  "str_int i = (if i < 0 then CHR ''-'' # str_nat (nat (- i)) else str_nat (nat i))"

text \<open>\<^verbatim>\<open>repr\<close> of a string: single quotes, unless the string holds a single quote and no
  double quote; the quote in use and the backslash are escaped, tab, newline and carriage
  return are written \<^verbatim>\<open>\t\<close>, \<^verbatim>\<open>\n\<close>, \<^verbatim>\<open>\r\<close>, and every other character that is
  not printable is written \<^verbatim>\<open>\xNN\<close>.\<close>

definition printable :: "char \<Rightarrow> bool" where
  "printable c = (let n = (of_char c :: nat) in (32 \<le> n \<and> n < 127) \<or> (161 \<le> n \<and> n \<noteq> 173))"

definition repr_char :: "char \<Rightarrow> char \<Rightarrow> string" where
  "repr_char q c =
     (if c = q \<or> c = CHR 0x5C then [CHR 0x5C, c]
      else if c = CHR 0x09 then [CHR 0x5C, CHR ''t'']
      else if c = CHR 0x0A then [CHR 0x5C, CHR ''n'']
      else if c = CHR 0x0D then [CHR 0x5C, CHR ''r'']
      else if printable c then [c]
      else [CHR 0x5C, CHR ''x'', digit_char (of_char c div 16), digit_char (of_char c mod 16)])"

definition repr_str :: "string \<Rightarrow> string" where
  "repr_str s =
     (let q = (if CHR 0x27 \<in> set s \<and> CHR 0x22 \<notin> set s then CHR 0x22 else CHR 0x27)
      in [q] @ concat (map (repr_char q) s) @ [q])"

text \<open>\<^verbatim>\<open>", ".join(xs)\<close>.\<close>

fun join_comma :: "string list \<Rightarrow> string" where
  "join_comma [] = []"
| "join_comma [x] = x"
| "join_comma (x # y # ys) = x @ '', '' @ join_comma (y # ys)"

fun repr_text :: "json \<Rightarrow> string" where
  "repr_text JNull = ''None''"
| "repr_text (JBool b) = (if b then ''True'' else ''False'')"
| "repr_text (JInt i) = str_int i"
| "repr_text (JFloat r) = r"
| "repr_text (JStr s) = repr_str s"
| "repr_text (JList xs) = ''['' @ join_comma (map repr_text xs) @ '']''"
| "repr_text (JDict d) =
     ''{'' @ join_comma (map (\<lambda>kv. repr_str (fst kv) @ '': '' @ repr_text (snd kv)) d) @ ''}''"

text \<open>\<^verbatim>\<open>str(x)\<close> is \<^verbatim>\<open>repr(x)\<close> except on a string, which it returns as it is.\<close>

fun str_text :: "json \<Rightarrow> string" where
  "str_text (JStr s) = s"
| "str_text x = repr_text x"

text \<open>
  The interpreter admits a bounded depth of nested calls (\<^verbatim>\<open>sys.getrecursionlimit()\<close>,
  1000 by default).  The first argument of \<open>py_repr\<close>, \<open>py_str\<close> and \<open>to_s\<close> is the
  number of further nested calls that it still admits where the call is made.
  \<^verbatim>\<open>repr\<close> takes one level for each value it prints, and prints the members of a list or
  a dict one level further down (the first member that fails ends the call).
\<close>

fun collect :: "(py_error + string) list \<Rightarrow> py_error + string list" where
  "collect [] = Inr []"
| "collect (Inl e # rs) = Inl e"
| "collect (Inr s # rs) = (case collect rs of Inl e \<Rightarrow> Inl e | Inr ss \<Rightarrow> Inr (s # ss))"

fun py_repr :: "nat \<Rightarrow> json \<Rightarrow> py_error + string" where
  "py_repr 0 x = Inl RecursionError"
| "py_repr (Suc f) (JList xs) =
     (case collect (map (py_repr f) xs) of
        Inl e \<Rightarrow> Inl e
      | Inr ss \<Rightarrow> Inr (''['' @ join_comma ss @ '']''))"
| "py_repr (Suc f) (JDict d) =
     (case collect (map (\<lambda>kv. case py_repr f (snd kv) of
                                   Inl e \<Rightarrow> Inl e
                                 | Inr v \<Rightarrow> Inr (repr_str (fst kv) @ '': '' @ v)) d) of
        Inl e \<Rightarrow> Inl e
      | Inr ss \<Rightarrow> Inr (''{'' @ join_comma ss @ ''}''))"
| "py_repr (Suc f) x = Inr (repr_text x)"

fun py_str :: "nat \<Rightarrow> json \<Rightarrow> py_error + string" where
  "py_str f (JStr s) = Inr s"
| "py_str f x = py_repr f x"

section \<open>The scalar coercer\<close>

text \<open>
  \<^verbatim>\<open>
  def to_s(x):
      if isinstance(x, str): return x
      if isinstance(x, list): return "".join(to_s(i) for i in x)
      return str(x)
  \<close>
  \<open>to_s f x\<close> is the call \<^verbatim>\<open>to_s(x)\<close> where the interpreter admits \<open>f\<close> further
  nested calls.  The call itself takes one level.  On a list, the call of \<^verbatim>\<open>join\<close> and
  the generator that it drives take one level each, and the generator calls \<^verbatim>\<open>to_s\<close>
  on the elements in order, so each list that \<^verbatim>\<open>to_s\<close> descends into costs three
  levels (as CPython 3.11 counts them: with the default limit, a list nested 400 deep
  raises \<^verbatim>\<open>RecursionError\<close>).  The first element that raises ends the call.
\<close>

fun to_s :: "nat \<Rightarrow> json \<Rightarrow> py_error + string" where
  "to_s 0 x = Inl RecursionError"
| "to_s (Suc f) (JStr s) = Inr s"
| "to_s (Suc f) (JList xs) =
     (if f < 2 then Inl RecursionError
      else case collect (map (to_s (f - 2)) xs) of
             Inl e \<Rightarrow> Inl e
           | Inr ss \<Rightarrow> Inr (concat ss))"
| "to_s (Suc f) x = py_str f x"

text \<open>The string that \<^verbatim>\<open>to_s(x)\<close> returns, when it returns (lemma \<open>to_s_returns\<close>), and
  the depth that the call needs (lemma \<open>to_s_frames_enough\<close>).\<close>

fun to_s_text :: "json \<Rightarrow> string" where
  "to_s_text (JStr s) = s"
| "to_s_text (JList xs) = concat (map to_s_text xs)"
| "to_s_text x = str_text x"

fun repr_frames :: "json \<Rightarrow> nat" where
  "repr_frames (JList xs) = Suc (foldr max (map repr_frames xs) 0)"
| "repr_frames (JDict d) = Suc (foldr max (map (\<lambda>kv. repr_frames (snd kv)) d) 0)"
| "repr_frames x = 1"

fun to_s_frames :: "json \<Rightarrow> nat" where
  "to_s_frames (JStr s) = 1"
| "to_s_frames (JList xs) = 3 + foldr max (map to_s_frames xs) 0"
| "to_s_frames x = Suc (repr_frames x)"

section \<open>Dictionaries and keyed repair rules\<close>

text \<open>\<^verbatim>\<open>d.get(k)\<close> is \<open>pyget (map_of d k)\<close>: \<^verbatim>\<open>None\<close> for a key that is absent.
  \<^verbatim>\<open>k in d\<close> is \<open>map_of d k \<noteq> None\<close>.\<close>

fun pyget :: "json option \<Rightarrow> json" where
  "pyget None = JNull"
| "pyget (Some v) = v"

text \<open>\<^verbatim>\<open>d[k] = v\<close>: the value of a key that is present is replaced where it stands, a
  new key goes to the end.\<close>

fun setitem :: "dict \<Rightarrow> string \<Rightarrow> json \<Rightarrow> dict" where
  "setitem [] k v = [(k, v)]"
| "setitem ((k', v') # d) k v = (if k' = k then (k, v) # d else (k', v') # setitem d k v)"

text \<open>\<^verbatim>\<open>list(d.items())\<close>: the bindings of the dict in order, one for each key (the
  binding that \<open>map_of\<close> sees).  On a list that binds every key once this is the list
  itself (lemma \<open>items_distinct\<close>).\<close>

fun items_from :: "string list \<Rightarrow> dict \<Rightarrow> dict" where
  "items_from seen [] = []"
| "items_from seen ((k, v) # d) =
     (if k \<in> set seen then items_from seen d else (k, v) # items_from (k # seen) d)"

definition items :: "dict \<Rightarrow> dict" where
  "items d = items_from [] d"

text \<open>
  Every repair in \<^verbatim>\<open>sanitize_notebook\<close> has one shape: it reads one key of one dict,
  and either leaves the dict alone or assigns a new value to that key and sets
  \<^verbatim>\<open>changed = True\<close>:
  \<^verbatim>\<open>
  if <test on d.get(k)>:
      d[k] = <new value>; changed = True
  \<close>
  A \<open>fixer\<close> is what one such statement does to the key it owns: from the binding of
  the key (\<open>None\<close> when the key is absent) it raises (\<open>Inl\<close>), leaves the key alone
  (\<open>Inr None\<close>), or assigns \<open>v\<close> (\<open>Inr (Some (b, v))\<close>, where \<open>b\<close> tells whether
  \<^verbatim>\<open>changed = True\<close> runs).  A value that the source reaches through an alias and
  mutates in place (\<^verbatim>\<open>md = raw.get("metadata")\<close>, then \<^verbatim>\<open>md[...] = ...\<close>) is
  assigned back to its key, which keeps the key where it stands.
\<close>

text \<open>
  A run that returns has had every call of \<^verbatim>\<open>to_s\<close> return, so the rules below carry
  the string that the call returns, \<open>to_s_text\<close>.  A \<^verbatim>\<open>RecursionError\<close> raised inside
  \<^verbatim>\<open>to_s\<close> ends the real run; it is not among the results of the runs modelled here,
  and every statement about a run is about a run that returns.
\<close>

type_synonym fixer = "json option \<Rightarrow> py_error + (bool \<times> json) option"

type_synonym rules = "(string \<times> fixer) list"

definition apply_rule :: "string \<Rightarrow> fixer \<Rightarrow> bool \<times> dict \<Rightarrow> py_error + bool \<times> dict" where
  "apply_rule k g = (\<lambda>(changed, d).
     case g (map_of d k) of
       Inl e \<Rightarrow> Inl e
     | Inr None \<Rightarrow> Inr (changed, d)
     | Inr (Some (b, v)) \<Rightarrow> Inr (changed \<or> b, setitem d k v))"

text \<open>The statements of a block run in order; an exception ends the run.\<close>

fun pass :: "rules \<Rightarrow> bool \<times> dict \<Rightarrow> py_error + bool \<times> dict" where
  "pass [] s = Inr s"
| "pass ((k, g) # rs) s = (case apply_rule k g s of Inl e \<Rightarrow> Inl e | Inr s' \<Rightarrow> pass rs s')"

text \<open>A dict mutated in place by a block of statements; \<open>changed\<close> tells whether the
  dict itself was created by the statement before the block.\<close>

definition inplace :: "rules \<Rightarrow> bool \<Rightarrow> dict \<Rightarrow> py_error + (bool \<times> json) option" where
  "inplace rs changed d =
     (case pass rs (changed, d) of Inl e \<Rightarrow> Inl e | Inr (ch, d') \<Rightarrow> Inr (Some (ch, JDict d')))"

text \<open>
  \<^verbatim>\<open>
  for k, v in list(d.items()):
      if <need k v>:
          d[k] = to_s(v); changed = True
  \<close>
\<close>

definition coerce_items :: "(string \<Rightarrow> json \<Rightarrow> bool) \<Rightarrow> dict \<Rightarrow> bool \<times> dict" where
  "coerce_items need d =
     fold (\<lambda>(k, v) (changed, d'). if need k v then (True, setitem d' k (JStr (to_s_text v))) else (changed, d'))
       (items d) (False, d)"

section \<open>The top-level rules\<close>

text \<open>\<^verbatim>\<open>if raw.get("nbformat") != 4: raw["nbformat"] = 4; changed = True\<close>\<close>

definition fix_nbformat :: fixer where
  "fix_nbformat x = (if \<not> eq_4 (pyget x) then Inr (Some (True, JInt 4)) else Inr None)"

text \<open>\<^verbatim>\<open>if not isinstance(raw.get("nbformat_minor"), int): raw["nbformat_minor"] = 5; changed = True\<close>\<close>

definition fix_nbformat_minor :: fixer where
  "fix_nbformat_minor x = (if \<not> is_int (pyget x) then Inr (Some (True, JInt 5)) else Inr None)"

text \<open>
  \<^verbatim>\<open>
  li = md.get("language_info")
  if not isinstance(li, dict):
      md["language_info"] = {"name": "python"}; changed = True
  else:
      if "name" not in li or not isinstance(li["name"], str):
          li["name"] = "python"; changed = True
  \<close>
\<close>

definition fix_li_name :: fixer where
  "fix_li_name x =
     (if x = None \<or> \<not> is_str (pyget x) then Inr (Some (True, JStr ''python'')) else Inr None)"

definition fix_language_info :: fixer where
  "fix_language_info x =
     (case pyget x of
        JDict li \<Rightarrow> inplace [(''name'', fix_li_name)] False li
      | _ \<Rightarrow> Inr (Some (True, JDict [(''name'', JStr ''python'')])))"

text \<open>
  \<^verbatim>\<open>
  ks = md.get("kernelspec")
  if not isinstance(ks, dict):
      md["kernelspec"] = {"name": "python3", "display_name": "Python 3"}; changed = True
  else:
      if ks.get("name") is None: ks["name"] = "python3"; changed = True
      if ks.get("display_name") is None: ks["display_name"] = "Python 3"; changed = True
  \<close>
\<close>

definition fix_default :: "string \<Rightarrow> fixer" where
  "fix_default v x = (if pyget x = JNull then Inr (Some (True, JStr v)) else Inr None)"

definition kernelspec_rules :: rules where
  "kernelspec_rules =
     [(''name'', fix_default ''python3''), (''display_name'', fix_default ''Python 3'')]"

definition fix_kernelspec :: fixer where
  "fix_kernelspec x =
     (case pyget x of
        JDict ks \<Rightarrow> inplace kernelspec_rules False ks
      | _ \<Rightarrow> Inr (Some (True, JDict [(''name'', JStr ''python3''), (''display_name'', JStr ''Python 3'')])))"

text \<open>
  \<^verbatim>\<open>
  md = raw.get("metadata")
  if not isinstance(md, dict):
      raw["metadata"] = {}; changed = True
      md = raw["metadata"]
  \<close>
  followed by the two blocks above, which work on \<^verbatim>\<open>md\<close>.
\<close>

definition metadata_rules :: rules where
  "metadata_rules = [(''language_info'', fix_language_info), (''kernelspec'', fix_kernelspec)]"

definition fix_metadata :: fixer where
  "fix_metadata x =
     (case pyget x of
        JDict md \<Rightarrow> inplace metadata_rules False md
      | _ \<Rightarrow> inplace metadata_rules True [])"

section \<open>The output rules (normalize mode)\<close>

text \<open>\<^verbatim>\<open>if not isinstance(o.get("metadata", {}), dict): o["metadata"] = {}; changed = True\<close>:
  with the default \<^verbatim>\<open>{}\<close>, a key that is absent passes the test.\<close>

definition fix_dict_if_present :: fixer where
  "fix_dict_if_present x =
     (case x of
        None \<Rightarrow> Inr None
      | Some v \<Rightarrow> if \<not> is_dict v then Inr (Some (True, JDict [])) else Inr None)"

text \<open>\<^verbatim>\<open>if k in o and not isinstance(o[k], str): o[k] = to_s(o[k]); changed = True\<close>,
  the statement for \<^verbatim>\<open>text\<close>, \<^verbatim>\<open>name\<close>, \<^verbatim>\<open>ename\<close>, \<^verbatim>\<open>evalue\<close> of an output and
  for \<^verbatim>\<open>source\<close> of a cell.\<close>

definition fix_to_s :: fixer where
  "fix_to_s x =
     (case x of
        None \<Rightarrow> Inr None
      | Some v \<Rightarrow> if \<not> is_str v then Inr (Some (True, JStr (to_s_text v))) else Inr None)"

text \<open>\<^verbatim>\<open>k.startswith(p)\<close>\<close>

definition startswith :: "string \<Rightarrow> string \<Rightarrow> bool" where
  "startswith k p = (take (length p) k = p)"

text \<open>
  \<^verbatim>\<open>
  data = o.get("data") or {}
  if not isinstance(data, dict):
      o["data"] = {}; changed = True
      data = o["data"]
  for k, v in list(data.items()):
      if k.startswith("text/") or k == "text/plain" or k.startswith("image/"):
          if not isinstance(v, str):
              data[k] = to_s(v); changed = True
      else:
          if not isinstance(v, (dict, list, str)):
              data[k] = to_s(v); changed = True
  \<close>
  When \<^verbatim>\<open>o.get("data")\<close> is false, \<^verbatim>\<open>data\<close> is a new empty dict that the output does
  not hold: the loop has nothing to visit and the output is left alone.
\<close>

definition need_data :: "string \<Rightarrow> json \<Rightarrow> bool" where
  "need_data k v =
     (if startswith k ''text/'' \<or> k = ''text/plain'' \<or> startswith k ''image/''
      then \<not> is_str v
      else \<not> (is_dict v \<or> is_list v \<or> is_str v))"

definition fix_data :: fixer where
  "fix_data x =
     (let v = pyget x in
      if \<not> truthy v then Inr None
      else case v of
             JDict data \<Rightarrow> Inr (Some (apsnd JDict (coerce_items need_data data)))
           | _ \<Rightarrow> Inr (Some (True, JDict [])))"

text \<open>
  \<^verbatim>\<open>
  ec = o.get("execution_count")
  if ec is not None and not isinstance(ec, int):
      o["execution_count"] = None; changed = True
  \<close>
  (the same statement runs on the cell at the end of normalize mode).
\<close>

definition fix_execution_count :: fixer where
  "fix_execution_count x =
     (let ec = pyget x in
      if ec \<noteq> JNull \<and> \<not> is_int ec then Inr (Some (True, JNull)) else Inr None)"

text \<open>
  \<^verbatim>\<open>
  if "traceback" in o:
      tb = o["traceback"]
      if isinstance(tb, list):
          new_tb = [to_s(t) for t in tb]
      else:
          new_tb = [to_s(tb)]
      if new_tb != tb:
          o["traceback"] = new_tb; changed = True
  \<close>
  \<^verbatim>\<open>new_tb\<close> is a list of strings, and a string is equal to nothing but itself, so
  \<^verbatim>\<open>!=\<close> is inequality of the two trees.
\<close>

definition fix_traceback :: fixer where
  "fix_traceback x =
     (case x of
        None \<Rightarrow> Inr None
      | Some tb \<Rightarrow>
          (let new_tb = (case tb of JList ts \<Rightarrow> map (\<lambda>t. JStr (to_s_text t)) ts | _ \<Rightarrow> [JStr (to_s_text tb)])
           in if JList new_tb \<noteq> tb then Inr (Some (True, JList new_tb)) else Inr None))"

text \<open>The statements that run on one output, chosen by \<^verbatim>\<open>ot = o.get("output_type")\<close>
  (no statement assigns to \<^verbatim>\<open>output_type\<close>).\<close>

definition output_rules :: "json \<Rightarrow> rules" where
  "output_rules ot =
     (''metadata'', fix_dict_if_present) #
     (if ot = JStr ''stream'' then [(''text'', fix_to_s), (''name'', fix_to_s)]
      else if ot = JStr ''display_data'' \<or> ot = JStr ''execute_result'' then
        (''data'', fix_data) #
        (if ot = JStr ''execute_result'' then [(''execution_count'', fix_execution_count)] else [])
      else if ot = JStr ''error'' then
        [(''traceback'', fix_traceback), (''ename'', fix_to_s), (''evalue'', fix_to_s)]
      else [])"

text \<open>The body of \<^verbatim>\<open>for o in outs\<close>; \<^verbatim>\<open>o.get\<close> raises \<^verbatim>\<open>AttributeError\<close> when the
  output is not a dict.\<close>

definition sanitize_output :: "json \<Rightarrow> py_error + bool \<times> json" where
  "sanitize_output out =
     (case out of
        JDict d \<Rightarrow>
          (case pass (output_rules (pyget (map_of d ''output_type''))) (False, d) of
             Inl e \<Rightarrow> Inl e
           | Inr (ch, d') \<Rightarrow> Inr (ch, JDict d'))
      | _ \<Rightarrow> Inl AttributeError)"

fun sanitize_outputs :: "json list \<Rightarrow> py_error + bool \<times> json list" where
  "sanitize_outputs [] = Inr (False, [])"
| "sanitize_outputs (out # outs) =
     (case sanitize_output out of
        Inl e \<Rightarrow> Inl e
      | Inr (ch, out') \<Rightarrow>
          (case sanitize_outputs outs of
             Inl e \<Rightarrow> Inl e
           | Inr (ch', outs') \<Rightarrow> Inr (ch \<or> ch', out' # outs')))"

text \<open>
  \<^verbatim>\<open>
  outs = c.get("outputs") or []
  if not isinstance(outs, list): outs = []; c["outputs"] = outs; changed = True
  for o in outs: ...
  \<close>
  When \<^verbatim>\<open>c.get("outputs")\<close> is false, \<^verbatim>\<open>outs\<close> is a new empty list that the cell does
  not hold, and the cell's key is left alone.
\<close>

definition fix_outputs :: fixer where
  "fix_outputs x =
     (let v = pyget x in
      if \<not> truthy v then Inr None
      else case v of
             JList outs \<Rightarrow>
               (case sanitize_outputs outs of
                  Inl e \<Rightarrow> Inl e
                | Inr (ch, outs') \<Rightarrow> Inr (Some (ch, JList outs')))
           | _ \<Rightarrow> Inr (Some (True, JList [])))"

section \<open>The cell rules\<close>

text \<open>\<^verbatim>\<open>uuid.uuid4().hex[:8]\<close>: the first four bytes of a version 4 UUID are random (the
  version and variant bits lie further on), so the new id is a random 32-bit number
  written with 8 hex digits.  The random numbers are a parameter \<open>rnd\<close>: the \<open>n\<close>-th
  id that a run generates is made from \<open>rnd n\<close>.\<close>

definition uuid4_hex8 :: "nat \<Rightarrow> string" where
  "uuid4_hex8 w = map (\<lambda>i. digit_char (w div 16 ^ i mod 16)) [7, 6, 5, 4, 3, 2, 1, 0]"

text \<open>
  \<^verbatim>\<open>
  cid = c.get("id")
  if cid is None or not isinstance(cid, str) or not cid:
      c["id"] = uuid.uuid4().hex[:8]; changed = True
  \<close>
\<close>

definition needs_id :: "json \<Rightarrow> bool" where
  "needs_id cid = (cid = JNull \<or> \<not> is_str cid \<or> \<not> truthy cid)"

definition fix_id :: "string \<Rightarrow> fixer" where
  "fix_id fresh x = (if needs_id (pyget x) then Inr (Some (True, JStr fresh)) else Inr None)"

text \<open>
  \<^verbatim>\<open>
  tags = c["metadata"].get("tags")
  if isinstance(tags, list):
      new_tags = [to_s(t) for t in tags if t is not None]
      if new_tags != tags:
          c["metadata"]["tags"] = new_tags; changed = True
  \<close>
\<close>

definition fix_tags :: fixer where
  "fix_tags x =
     (case pyget x of
        JList tags \<Rightarrow>
          (let new_tags = [JStr (to_s_text t). t \<leftarrow> tags, t \<noteq> JNull]
           in if new_tags \<noteq> tags then Inr (Some (True, JList new_tags)) else Inr None)
      | _ \<Rightarrow> Inr None)"

text \<open>
  \<^verbatim>\<open>
  exec_md = c["metadata"].get("execution")
  if isinstance(exec_md, dict):
      for k, v in list(exec_md.items()):
          if not isinstance(v, str):
              exec_md[k] = to_s(v); changed = True
  \<close>
\<close>

definition fix_execution :: fixer where
  "fix_execution x =
     (case pyget x of
        JDict exec_md \<Rightarrow> Inr (Some (apsnd JDict (coerce_items (\<lambda>k v. \<not> is_str v) exec_md)))
      | _ \<Rightarrow> Inr None)"

text \<open>
  \<^verbatim>\<open>
  if not isinstance(c.get("metadata", {}), dict):
      c["metadata"] = {}; changed = True
  tags = c["metadata"].get("tags")
  \<close>
  The test lets a cell without the key pass, and \<^verbatim>\<open>c["metadata"]\<close> on the next line
  raises \<^verbatim>\<open>KeyError\<close> for it.
\<close>

definition cell_metadata_rules :: rules where
  "cell_metadata_rules = [(''tags'', fix_tags), (''execution'', fix_execution)]"

definition fix_cell_metadata :: fixer where
  "fix_cell_metadata x =
     (case x of
        None \<Rightarrow> Inl KeyError
      | Some (JDict md) \<Rightarrow> inplace cell_metadata_rules False md
      | Some _ \<Rightarrow> inplace cell_metadata_rules True [])"

text \<open>
  \<^verbatim>\<open>
  if c.get("cell_type") in ("markdown", "raw") and "attachments" in c \
        and not isinstance(c["attachments"], dict):
      c["attachments"] = {}; changed = True
  \<close>
\<close>

definition fix_attachments :: "json \<Rightarrow> fixer" where
  "fix_attachments cell_type x =
     (if cell_type = JStr ''markdown'' \<or> cell_type = JStr ''raw'' then fix_dict_if_present x
      else Inr None)"

text \<open>
  Strip mode:
  \<^verbatim>\<open>
  if c.get("outputs"): changed = True
  c["outputs"] = []
  if c.get("execution_count") is not None:
      c["execution_count"] = None; changed = True
  \<close>
\<close>

definition clear_outputs :: fixer where
  "clear_outputs x = Inr (Some (truthy (pyget x), JList []))"

definition clear_execution_count :: fixer where
  "clear_execution_count x = (if pyget x \<noteq> JNull then Inr (Some (True, JNull)) else Inr None)"

text \<open>The statements that run on one cell, in order; \<open>cell_type\<close> is
  \<^verbatim>\<open>c.get("cell_type")\<close>, which no statement assigns.\<close>

definition cell_rules :: "bool \<Rightarrow> string \<Rightarrow> json \<Rightarrow> rules" where
  "cell_rules strip fresh cell_type =
     [(''id'', fix_id fresh), (''source'', fix_to_s), (''metadata'', fix_cell_metadata),
      (''attachments'', fix_attachments cell_type)] @
     (if cell_type = JStr ''code'' then
        (if strip then [(''outputs'', clear_outputs), (''execution_count'', clear_execution_count)]
         else [(''outputs'', fix_outputs), (''execution_count'', fix_execution_count)])
      else [])"

text \<open>The body of \<^verbatim>\<open>for c in cells\<close>; \<^verbatim>\<open>c.get\<close> raises \<^verbatim>\<open>AttributeError\<close> when the
  cell is not a dict.\<close>

definition sanitize_cell :: "bool \<Rightarrow> string \<Rightarrow> json \<Rightarrow> py_error + bool \<times> json" where
  "sanitize_cell strip fresh c =
     (case c of
        JDict d \<Rightarrow>
          (case pass (cell_rules strip fresh (pyget (map_of d ''cell_type''))) (False, d) of
             Inl e \<Rightarrow> Inl e
           | Inr (ch, d') \<Rightarrow> Inr (ch, JDict d'))
      | _ \<Rightarrow> Inl AttributeError)"

text \<open>Whether the cell takes a new id, and so draws the next random number.\<close>

definition draws_id :: "json \<Rightarrow> bool" where
  "draws_id c = (case c of JDict d \<Rightarrow> needs_id (pyget (map_of d ''id'')) | _ \<Rightarrow> False)"

fun sanitize_cells :: "bool \<Rightarrow> (nat \<Rightarrow> nat) \<Rightarrow> nat \<Rightarrow> json list \<Rightarrow> py_error + bool \<times> json list" where
  "sanitize_cells strip rnd n [] = Inr (False, [])"
| "sanitize_cells strip rnd n (c # cs) =
     (case sanitize_cell strip (uuid4_hex8 (rnd n)) c of
        Inl e \<Rightarrow> Inl e
      | Inr (ch, c') \<Rightarrow>
          (case sanitize_cells strip rnd (if draws_id c then Suc n else n) cs of
             Inl e \<Rightarrow> Inl e
           | Inr (ch', cs') \<Rightarrow> Inr (ch \<or> ch', c' # cs')))"

text \<open>
  \<^verbatim>\<open>
  cells = raw.get("cells")
  if not isinstance(cells, list):
      raw["cells"] = []; changed = True
      cells = raw["cells"]
  for c in cells: ...
  \<close>
\<close>

definition fix_cells :: "bool \<Rightarrow> (nat \<Rightarrow> nat) \<Rightarrow> fixer" where
  "fix_cells strip rnd x =
     (case pyget x of
        JList cells \<Rightarrow>
          (case sanitize_cells strip rnd 0 cells of
             Inl e \<Rightarrow> Inl e
           | Inr (ch, cells') \<Rightarrow> Inr (Some (ch, JList cells')))
      | _ \<Rightarrow> Inr (Some (True, JList [])))"

section \<open>The document normalizer\<close>

definition notebook_rules :: "bool \<Rightarrow> (nat \<Rightarrow> nat) \<Rightarrow> rules" where
  "notebook_rules strip rnd =
     [(''nbformat'', fix_nbformat), (''nbformat_minor'', fix_nbformat_minor),
      (''metadata'', fix_metadata), (''cells'', fix_cells strip rnd)]"

text \<open>
  \<open>sanitize_notebook strip_outputs rnd raw\<close> is the run of \<^verbatim>\<open>sanitize_notebook\<close> on
  the parsed document \<open>raw\<close>: it returns \<^verbatim>\<open>changed\<close> and the document as the run leaves
  it in memory, or the exception that ends the run.  \<^verbatim>\<open>raw.get\<close> raises
  \<^verbatim>\<open>AttributeError\<close> when the document is not a dict.  The file is written, with the
  document as left in memory, when \<^verbatim>\<open>changed\<close> is true, and is left as it was otherwise
  (\<open>file_after\<close>).
\<close>

definition sanitize_notebook :: "bool \<Rightarrow> (nat \<Rightarrow> nat) \<Rightarrow> json \<Rightarrow> py_error + bool \<times> json" where
  "sanitize_notebook strip_outputs rnd raw =
     (case raw of
        JDict d \<Rightarrow>
          (case pass (notebook_rules strip_outputs rnd) (False, d) of
             Inl e \<Rightarrow> Inl e
           | Inr (changed, d') \<Rightarrow> Inr (changed, JDict d'))
      | _ \<Rightarrow> Inl AttributeError)"

definition file_after :: "bool \<Rightarrow> (nat \<Rightarrow> nat) \<Rightarrow> json \<Rightarrow> py_error + json" where
  "file_after strip_outputs rnd raw =
     (case sanitize_notebook strip_outputs rnd raw of
        Inl e \<Rightarrow> Inl e
      | Inr (changed, raw') \<Rightarrow> Inr (if changed then raw' else raw))"

section \<open>Reading a document\<close>

text \<open>The value of a key of a dict (\<open>None\<close> when the key is absent or the value is not
  a dict), the cells of a notebook, the outputs of a cell, the tags of a cell's metadata
  and the entries of an output's \<^verbatim>\<open>data\<close>.\<close>

definition field :: "string \<Rightarrow> json \<Rightarrow> json option" where
  "field k v = (case v of JDict d \<Rightarrow> map_of d k | _ \<Rightarrow> None)"

definition cells_of :: "json \<Rightarrow> json list" where
  "cells_of raw = (case field ''cells'' raw of Some (JList cs) \<Rightarrow> cs | _ \<Rightarrow> [])"

definition outputs_of :: "json \<Rightarrow> json list" where
  "outputs_of c = (case field ''outputs'' c of Some (JList outs) \<Rightarrow> outs | _ \<Rightarrow> [])"

definition tags_of :: "json \<Rightarrow> json option" where
  "tags_of c = (case field ''metadata'' c of Some md \<Rightarrow> field ''tags'' md | None \<Rightarrow> None)"

definition entry :: "string \<Rightarrow> json \<Rightarrow> json option" where
  "entry k out = (case field ''data'' out of Some d \<Rightarrow> field k d | None \<Rightarrow> None)"

section \<open>Notions used in the proofs\<close>

text \<open>The binding of a key once a fixer has answered \<open>r\<close>; a fixer is settled on a
  binding when it leaves the dict as it is and does not set \<^verbatim>\<open>changed\<close>; \<open>idem2 g g'\<close>
  says that \<open>g'\<close> is settled on whatever \<open>g\<close> leaves behind; \<open>exact g\<close> says that
  \<open>g\<close> assigns a different value only together with \<^verbatim>\<open>changed = True\<close>.\<close>

definition after :: "json option \<Rightarrow> (bool \<times> json) option \<Rightarrow> json option" where
  "after x r = (case r of None \<Rightarrow> x | Some (b, v) \<Rightarrow> Some v)"

definition settled :: "fixer \<Rightarrow> json option \<Rightarrow> bool" where
  "settled g x = (g x = Inr None \<or> (\<exists>v. x = Some v \<and> g x = Inr (Some (False, v))))"

definition idem2 :: "fixer \<Rightarrow> fixer \<Rightarrow> bool" where
  "idem2 g g' = (\<forall>x r. g x = Inr r \<longrightarrow> settled g' (after x r))"

definition exact :: "fixer \<Rightarrow> bool" where
  "exact g = (\<forall>x b v. g x = Inr (Some (b, v)) \<longrightarrow> b \<or> x = Some v)"

abbreviation (input) coerce_step :: "(string \<Rightarrow> json \<Rightarrow> bool) \<Rightarrow> string \<times> json \<Rightarrow> bool \<times> dict \<Rightarrow> bool \<times> dict" where
  "coerce_step need \<equiv> (\<lambda>(k, v) (changed, d'). if need k v then (True, setitem d' k (JStr (to_s_text v))) else (changed, d'))"

definition good :: "rules \<Rightarrow> bool" where
  "good rs = (distinct (map fst rs) \<and> list_all (\<lambda>r. idem2 (snd r) (snd r)) rs)"

definition exact_rules :: "rules \<Rightarrow> bool" where
  "exact_rules rs = list_all (\<lambda>r. exact (snd r)) rs"

text \<open>\<open>cell_run strip ch c c'\<close>: the loop body turns the cell \<open>c\<close> into \<open>c'\<close>, and
  \<open>ch\<close> holds if it sets \<^verbatim>\<open>changed\<close>; likewise for an output.\<close>

definition cell_run :: "bool \<Rightarrow> bool \<Rightarrow> json \<Rightarrow> json \<Rightarrow> bool" where
  "cell_run strip ch c c' =
     (\<exists>fresh b. fresh \<noteq> [] \<and> sanitize_cell strip fresh c = Inr (b, c') \<and> (b \<longrightarrow> ch))"

definition output_run :: "bool \<Rightarrow> json \<Rightarrow> json \<Rightarrow> bool" where
  "output_run ch out out' = (\<exists>b. sanitize_output out = Inr (b, out') \<and> (b \<longrightarrow> ch))"

section \<open>Example documents\<close>

text \<open>A notebook whose top level needs no repair, with the given cells.\<close>

definition clean_metadata :: json where
  "clean_metadata =
     JDict [(''language_info'', JDict [(''name'', JStr ''python'')]),
            (''kernelspec'', JDict [(''name'', JStr ''python3''), (''display_name'', JStr ''Python 3'')])]"

definition notebook :: "json list \<Rightarrow> json" where
  "notebook cells =
     JDict [(''nbformat'', JInt 4), (''nbformat_minor'', JInt 5),
            (''metadata'', clean_metadata), (''cells'', JList cells)]"

text \<open>A value nested \<open>n\<close> lists deep.\<close>

fun nest :: "nat \<Rightarrow> json \<Rightarrow> json" where
  "nest 0 x = x"
| "nest (Suc n) x = JList [nest n x]"

section \<open>The depth that a call of the coercer needs\<close>

lemma foldr_max_le: "foldr max ys (0::nat) \<le> n \<longleftrightarrow> (\<forall>y \<in> set ys. y \<le> n)"
  by (induction ys) auto

lemma collect_all:
  assumes "\<And>x. x \<in> set xs \<Longrightarrow> g x = (if P x then Inr (h x) else Inl RecursionError)"
  shows "collect (map g xs) = (if \<forall>x \<in> set xs. P x then Inr (map h xs) else Inl RecursionError)"
  using assms by (induction xs) auto

lemma py_repr_frames:
  "py_repr f x = (if repr_frames x \<le> f then Inr (repr_text x) else Inl RecursionError)"
proof (induction f x rule: py_repr.induct)
  case (1 x)
  then show ?case by (cases x) simp_all
next
  case (2 f xs)
  have "collect (map (py_repr f) xs)
      = (if \<forall>x \<in> set xs. repr_frames x \<le> f then Inr (map repr_text xs) else Inl RecursionError)"
    by (rule collect_all) (rule 2)
  then show ?case by (simp add: foldr_max_le)
next
  case (3 f d)
  have "collect (map (\<lambda>kv. case py_repr f (snd kv) of Inl e \<Rightarrow> Inl e
                                 | Inr v \<Rightarrow> Inr (repr_str (fst kv) @ '': '' @ v)) d)
      = (if \<forall>kv \<in> set d. repr_frames (snd kv) \<le> f
         then Inr (map (\<lambda>kv. repr_str (fst kv) @ '': '' @ repr_text (snd kv)) d)
         else Inl RecursionError)"
    by (rule collect_all) (simp add: 3)
  then show ?case by (simp add: foldr_max_le)
qed simp_all

lemma to_s_frames_enough:
  "to_s f x = (if to_s_frames x \<le> f then Inr (to_s_text x) else Inl RecursionError)"
proof (induction f x rule: to_s.induct)
  case (1 x)
  then show ?case by (cases x) simp_all
next
  case (3 f xs)
  show ?case
  proof (cases "f < 2")
    case True
    then show ?thesis by simp
  next
    case False
    have "collect (map (to_s (f - 2)) xs)
      = (if \<forall>x \<in> set xs. to_s_frames x \<le> f - 2 then Inr (map to_s_text xs) else Inl RecursionError)"
      by (rule collect_all) (rule 3[OF False])
    moreover have "(3 + foldr max (map to_s_frames xs) 0 \<le> Suc f) = (\<forall>x \<in> set xs. to_s_frames x \<le> f - 2)"
      using False foldr_max_le[of "map to_s_frames xs" "f - 2"] by auto
    ultimately show ?thesis using False by simp
  qed
qed (simp_all add: py_repr_frames)

lemma to_s_returns: "to_s f x = Inr s \<Longrightarrow> s = to_s_text x"
  by (simp add: to_s_frames_enough split: if_splits)

lemma to_s_frames_nest: "to_s_frames (nest n (JStr s)) = 3 * n + 1"
  by (induction n) simp_all

lemma to_s_text_nest: "to_s_text (nest n (JStr s)) = s"
  by (induction n) simp_all

section \<open>Dictionaries, passes and loops\<close>

lemma map_of_setitem: "map_of (setitem d k v) k' = (if k' = k then Some v else map_of d k')"
  by (induction d) auto

lemma setitem_same: "map_of d k = Some v \<Longrightarrow> setitem d k v = d"
  by (induction d) (auto split: if_splits)

lemma setitem_eq_iff: "setitem d k v = d \<longleftrightarrow> map_of d k = Some v"
  by (metis map_of_setitem setitem_same)

lemma apply_rule_cases:
  assumes "apply_rule k g (ch, d) = Inr (ch', d')"
  obtains r where "g (map_of d k) = Inr r" "map_of d' k = after (map_of d k) r"
    "\<And>k'. k' \<noteq> k \<Longrightarrow> map_of d' k' = map_of d k'"
    "ch' = (ch \<or> (case r of None \<Rightarrow> False | Some (b, v) \<Rightarrow> b))"
    "d' = (case r of None \<Rightarrow> d | Some (b, v) \<Rightarrow> setitem d k v)"
  using assms
  by (auto simp: apply_rule_def after_def map_of_setitem split: sum.splits option.splits)

lemma apply_rule_settled: "settled g (map_of d k) \<Longrightarrow> apply_rule k g (c, d) = Inr (c, d)"
  by (auto simp: apply_rule_def settled_def setitem_same)

lemma pass_frame:
  "pass rs (ch, d) = Inr (ch', d') \<Longrightarrow> k \<notin> fst ` set rs \<Longrightarrow> map_of d' k = map_of d k"
proof (induction rs arbitrary: ch d)
  case Nil
  then show ?case by simp
next
  case (Cons r rs)
  obtain k0 g where r: "r = (k0, g)" by (cases r)
  from Cons.prems obtain ch1 d1 where 1: "apply_rule k0 g (ch, d) = Inr (ch1, d1)"
    and 2: "pass rs (ch1, d1) = Inr (ch', d')"
    by (auto simp: r split: sum.splits)
  from Cons.prems have "k \<noteq> k0" "k \<notin> fst ` set rs" by (auto simp: r)
  with Cons.IH[OF 2] 1 show ?case by (elim apply_rule_cases) simp
qed

lemma pass_settled:
  "\<forall>(k, g) \<in> set rs. settled g (map_of d k) \<Longrightarrow> pass rs (c, d) = Inr (c, d)"
  by (induction rs) (auto simp: apply_rule_settled)

lemma pass_idem:
  assumes "list_all2 (\<lambda>r r'. fst r' = fst r \<and> idem2 (snd r) (snd r')) rs rs'"
    and "distinct (map fst rs)" and "pass rs (ch, d) = Inr (ch', d')"
  shows "pass rs' (c, d') = Inr (c, d')"
  using assms
proof (induction rs rs' arbitrary: ch d rule: list_all2_induct)
  case Nil
  then show ?case by simp
next
  case (Cons r rs r' rs')
  obtain k g g' where r: "r = (k, g)" "r' = (k, g')" using Cons.hyps(1) by (cases r; cases r') auto
  from Cons.prems obtain ch1 d1 where 1: "apply_rule k g (ch, d) = Inr (ch1, d1)"
    and 2: "pass rs (ch1, d1) = Inr (ch', d')"
    by (auto simp: r split: sum.splits)
  from Cons.prems have k: "k \<notin> fst ` set rs" and dist: "distinct (map fst rs)" by (auto simp: r)
  from 1 obtain x where x: "g (map_of d k) = Inr x" "map_of d1 k = after (map_of d k) x"
    by (elim apply_rule_cases)
  have "map_of d' k = map_of d1 k" using pass_frame[OF 2 k] .
  moreover have "idem2 g g'" using Cons.hyps(1) by (simp add: r)
  ultimately have "settled g' (map_of d' k)" using x by (auto simp: idem2_def)
  then have "apply_rule k g' (c, d') = Inr (c, d')" by (rule apply_rule_settled)
  moreover have "pass rs' (c, d') = Inr (c, d')" using Cons.IH[OF dist 2] .
  ultimately show ?case by (simp add: r)
qed

lemma exactD: "exact g \<Longrightarrow> g x = Inr (Some (False, v)) \<Longrightarrow> x = Some v"
  unfolding exact_def by blast

lemma pass_quiet:
  assumes "\<forall>(k, g) \<in> set rs. exact g" and "pass rs (ch, d) = Inr (ch', d')" and "\<not> ch'"
  shows "d' = d \<and> \<not> ch"
  using assms
proof (induction rs arbitrary: ch d)
  case Nil
  then show ?case by simp
next
  case (Cons r rs)
  obtain k g where r: "r = (k, g)" by (cases r)
  from Cons.prems obtain ch1 d1 where 1: "apply_rule k g (ch, d) = Inr (ch1, d1)"
    and 2: "pass rs (ch1, d1) = Inr (ch', d')"
    by (auto simp: r split: sum.splits)
  have "d' = d1 \<and> \<not> ch1" using Cons.IH[OF _ 2] Cons.prems by auto
  moreover have "exact g" using Cons.prems by (simp add: r)
  ultimately show ?case using 1
    by (elim apply_rule_cases) (auto simp: setitem_same dest: exactD split: option.splits)
qed

lemma pass_flag:
  "pass rs (ch, d) = Inr (ch', d') \<Longrightarrow> ch \<Longrightarrow> ch'"
proof (induction rs arbitrary: ch d)
  case Nil
  then show ?case by simp
next
  case (Cons r rs)
  obtain k g where r: "r = (k, g)" by (cases r)
  from Cons.prems obtain ch1 d1 where 1: "apply_rule k g (ch, d) = Inr (ch1, d1)"
    and 2: "pass rs (ch1, d1) = Inr (ch', d')"
    by (auto simp: r split: sum.splits)
  from 1 Cons.prems have ch1 by (elim apply_rule_cases) simp
  then show ?case using Cons.IH[OF 2] by simp
qed

lemma pass_result:
  assumes "distinct (map fst rs)" and "(k, g) \<in> set rs" and "pass rs (ch, d) = Inr (ch', d')"
  obtains r where "g (map_of d k) = Inr r" "map_of d' k = after (map_of d k) r"
    "\<And>v. r = Some (True, v) \<Longrightarrow> ch'"
proof -
  have "\<exists>r. g (map_of d k) = Inr r \<and> map_of d' k = after (map_of d k) r \<and> (\<forall>v. r = Some (True, v) \<longrightarrow> ch')"
    using assms
  proof (induction rs arbitrary: ch d)
    case Nil
    then show ?case by simp
  next
    case (Cons r0 rs)
    obtain k0 g0 where r: "r0 = (k0, g0)" by (cases r0)
    from Cons.prems obtain ch1 d1 where 1: "apply_rule k0 g0 (ch, d) = Inr (ch1, d1)"
      and 2: "pass rs (ch1, d1) = Inr (ch', d')"
      by (auto simp: r split: sum.splits)
    from Cons.prems have k0: "k0 \<notin> fst ` set rs" and dist: "distinct (map fst rs)" by (auto simp: r)
    show ?case
    proof (cases "(k, g) = (k0, g0)")
      case True
      from 1 obtain x where x: "g0 (map_of d k0) = Inr x" "map_of d1 k0 = after (map_of d k0) x"
        "ch1 = (ch \<or> (case x of None \<Rightarrow> False | Some (b, v) \<Rightarrow> b))"
        by (elim apply_rule_cases)
      have "map_of d' k0 = map_of d1 k0" using pass_frame[OF 2 k0] .
      moreover have "\<forall>v. x = Some (True, v) \<longrightarrow> ch'" using x(3) pass_flag[OF 2] by auto
      ultimately show ?thesis using True x by auto
    next
      case False
      then have in_rs: "(k, g) \<in> set rs" using Cons.prems by (auto simp: r)
      then have "k \<noteq> k0" using k0 by force
      then have "map_of d1 k = map_of d k" using 1 by (elim apply_rule_cases) simp
      then show ?thesis using Cons.IH[OF dist in_rs 2] by simp
    qed
  qed
  then show ?thesis using that by blast
qed

subsection \<open>items\<close>

lemma map_of_items_from:
  "map_of (items_from seen d) k = (if k \<in> set seen then None else map_of d k)"
  by (induction seen d rule: items_from.induct) auto

lemma map_of_items: "map_of (items d) = map_of d"
  by (rule ext) (simp add: items_def map_of_items_from)

lemma fst_items_from: "fst ` set (items_from seen d) \<inter> set seen = {}"
  by (induction seen d rule: items_from.induct) auto

lemma distinct_items_from: "distinct (map fst (items_from seen d))"
proof (induction seen d rule: items_from.induct)
  case (1 seen)
  then show ?case by simp
next
  case (2 seen k v d)
  have "k \<notin> fst ` set (items_from (k # seen) d)" using fst_items_from[of "k # seen" d] by auto
  with 2 show ?case by auto
qed

lemma distinct_items: "distinct (map fst (items d))"
  by (simp add: items_def distinct_items_from)

lemma items_from_distinct:
  "distinct (map fst d) \<Longrightarrow> set seen \<inter> fst ` set d = {} \<Longrightarrow> items_from seen d = d"
  by (induction seen d rule: items_from.induct) (auto simp: rev_image_eqI)

lemma items_distinct: "distinct (map fst d) \<Longrightarrow> items d = d"
  by (simp add: items_def items_from_distinct)

lemma in_items_iff: "(k, v) \<in> set (items d) \<longleftrightarrow> map_of d k = Some v"
  using map_of_eq_Some_iff[OF distinct_items, of d k v] by (simp add: map_of_items)

subsection \<open>coerce_items\<close>

lemma fold_coerce_id:
  "\<forall>(k, v) \<in> set xs. \<not> need k v \<Longrightarrow> fold (coerce_step need) xs s = s"
  by (induction xs arbitrary: s) (auto split: prod.splits)

lemma fold_coerce:
  assumes "distinct (map fst xs)" and "fold (coerce_step need) xs (ch, d) = (ch', d')"
  shows "map_of d' k =
           (case map_of xs k of
              Some v \<Rightarrow> if need k v then Some (JStr (to_s_text v)) else map_of d k
            | None \<Rightarrow> map_of d k)"
    and "ch' = (ch \<or> (\<exists>(k, v) \<in> set xs. need k v))"
  using assms
proof (induction xs arbitrary: ch d)
  case Nil
  { case 1 then show ?case by simp }
  { case 2 then show ?case by simp }
next
  case (Cons x xs)
  obtain k0 v0 where x: "x = (k0, v0)" by (cases x)
  { case 1
    then have k0: "map_of xs k0 = None" and dist: "distinct (map fst xs)"
      by (auto simp: x map_of_eq_None_iff)
    show ?case
    proof (cases "need k0 v0")
      case True
      with 1 have f: "fold (coerce_step need) xs (True, setitem d k0 (JStr (to_s_text v0))) = (ch', d')"
        by (simp add: x)
      show ?thesis using Cons.IH(1)[OF dist f] True k0
        by (auto simp: x map_of_setitem split: option.splits)
    next
      case False
      with 1 have f: "fold (coerce_step need) xs (ch, d) = (ch', d')" by (simp add: x)
      show ?thesis using Cons.IH(1)[OF dist f] False k0
        by (auto simp: x split: option.splits)
    qed }
  { case 2
    then have dist: "distinct (map fst xs)" by (auto simp: x)
    show ?case
    proof (cases "need k0 v0")
      case True
      with 2 have f: "fold (coerce_step need) xs (True, setitem d k0 (JStr (to_s_text v0))) = (ch', d')"
        by (simp add: x)
      show ?thesis using Cons.IH(2)[OF dist f] True by (auto simp: x)
    next
      case False
      with 2 have f: "fold (coerce_step need) xs (ch, d) = (ch', d')" by (simp add: x)
      show ?thesis using Cons.IH(2)[OF dist f] False by (auto simp: x)
    qed }
qed

lemma coerce_items_map_of:
  assumes "coerce_items need d = (b, d')"
  shows "map_of d' k = map_option (\<lambda>v. if need k v then JStr (to_s_text v) else v) (map_of d k)"
  using fold_coerce(1)[OF distinct_items assms[unfolded coerce_items_def], of k]
  by (auto simp: map_of_items split: option.splits)

lemma coerce_items_flag:
  assumes "coerce_items need d = (b, d')"
  shows "b = (\<exists>k v. map_of d k = Some v \<and> need k v)"
  using fold_coerce(2)[OF distinct_items assms[unfolded coerce_items_def]]
  by (simp add: in_items_iff split_def) (metis in_items_iff prod.collapse fst_conv snd_conv)

lemma coerce_items_quiet:
  assumes "coerce_items need d = (False, d')"
  shows "d' = d"
proof -
  have "\<forall>(k, v) \<in> set (items d). \<not> need k v"
    using coerce_items_flag[OF assms] by (auto simp: in_items_iff)
  then show ?thesis using assms by (simp add: coerce_items_def fold_coerce_id)
qed

lemma coerce_items_idem:
  assumes "coerce_items need d = (b, d')" and "\<And>k s. \<not> need k (JStr s)"
  shows "coerce_items need d' = (False, d')"
proof -
  have "\<not> need k v" if "map_of d' k = Some v" for k v
  proof -
    from that coerce_items_map_of[OF assms(1), of k]
    obtain v0 where "v = (if need k v0 then JStr (to_s_text v0) else v0)" by auto
    then show ?thesis using assms(2) by (cases "need k v0") auto
  qed
  then have "\<forall>(k, v) \<in> set (items d'). \<not> need k v" by (auto simp: in_items_iff)
  then show ?thesis by (simp add: coerce_items_def fold_coerce_id)
qed

section \<open>Every rule is settled after it has run\<close>

lemma pyget_eq_simps:
  "pyget x = JDict d \<longleftrightarrow> x = Some (JDict d)"
  "pyget x = JList xs \<longleftrightarrow> x = Some (JList xs)"
  "pyget x = JStr s \<longleftrightarrow> x = Some (JStr s)"
  by (cases x; simp)+

lemma good_pass_idem:
  assumes "good rs" and "pass rs (ch, d) = Inr (ch', d')"
  shows "pass rs (c, d') = Inr (c, d')"
proof -
  have "list_all2 (\<lambda>r r'. fst r' = fst r \<and> idem2 (snd r) (snd r')) rs rs"
    using assms(1) by (auto simp: good_def list_all2_same list_all_iff)
  then show ?thesis using assms by (auto simp: good_def intro: pass_idem)
qed

lemma idem2I:
  assumes "\<And>x r. g x = Inr r \<Longrightarrow> settled g' (after x r)"
  shows "idem2 g g'"
  using assms by (simp add: idem2_def)

lemma inplace_idem:
  assumes "good rs" and "inplace rs b d = Inr r"
  shows "settled (\<lambda>x. case pyget x of JDict d \<Rightarrow> inplace rs False d | _ \<Rightarrow> G x) (after x r)"
proof -
  from assms(2) obtain ch d' where p: "pass rs (b, d) = Inr (ch, d')" and r: "r = Some (ch, JDict d')"
    by (auto simp: inplace_def split: sum.splits)
  have "pass rs (False, d') = Inr (False, d')" using good_pass_idem[OF assms(1) p] .
  then show ?thesis by (simp add: settled_def after_def r inplace_def)
qed

lemma idem2_nbformat: "idem2 fix_nbformat fix_nbformat"
  by (rule idem2I) (auto simp: settled_def after_def fix_nbformat_def split: if_splits)

lemma idem2_nbformat_minor: "idem2 fix_nbformat_minor fix_nbformat_minor"
  by (rule idem2I) (auto simp: settled_def after_def fix_nbformat_minor_def split: if_splits)

lemma idem2_li_name: "idem2 fix_li_name fix_li_name"
  by (rule idem2I) (auto simp: settled_def after_def fix_li_name_def split: if_splits)

lemma idem2_default: "idem2 (fix_default v) (fix_default v)"
  by (rule idem2I) (auto simp: settled_def after_def fix_default_def split: if_splits)

lemma idem2_dict_if_present: "idem2 fix_dict_if_present fix_dict_if_present"
  by (rule idem2I) (auto simp: settled_def after_def fix_dict_if_present_def split: if_splits option.splits)

lemma idem2_to_s: "idem2 fix_to_s fix_to_s"
  by (rule idem2I) (auto simp: settled_def after_def fix_to_s_def split: if_splits option.splits)

lemma idem2_execution_count: "idem2 fix_execution_count fix_execution_count"
  by (rule idem2I) (auto simp: settled_def after_def fix_execution_count_def Let_def split: if_splits)

lemma idem2_clear_outputs: "idem2 clear_outputs clear_outputs"
  by (rule idem2I) (auto simp: settled_def after_def clear_outputs_def)

lemma idem2_clear_execution_count: "idem2 clear_execution_count clear_execution_count"
  by (rule idem2I) (auto simp: settled_def after_def clear_execution_count_def split: if_splits)

lemma idem2_attachments: "idem2 (fix_attachments ct) (fix_attachments ct)"
  using idem2_dict_if_present
  by (auto simp: idem2_def settled_def after_def fix_attachments_def)

lemma idem2_id: "fresh \<noteq> [] \<Longrightarrow> idem2 (fix_id fresh) (fix_id fresh')"
  by (rule idem2I) (auto simp: settled_def after_def fix_id_def needs_id_def split: if_splits)

lemma coerced_fixed: "[JStr (to_s_text t). t \<leftarrow> map (\<lambda>t. JStr (to_s_text t)) ts, t \<noteq> JNull] = map (\<lambda>t. JStr (to_s_text t)) ts"
  by (induction ts) auto

lemma coerced_fixed2: "[JStr (to_s_text t). t \<leftarrow> [JStr (to_s_text t). t \<leftarrow> ts, t \<noteq> JNull], t \<noteq> JNull] = [JStr (to_s_text t). t \<leftarrow> ts, t \<noteq> JNull]"
  by (induction ts) auto

lemma coerced_fixed3: "map (\<lambda>t. JStr (to_s_text t)) (map (\<lambda>t. JStr (to_s_text t)) ts) = map (\<lambda>t. JStr (to_s_text t)) ts"
  by (induction ts) auto

lemma idem2_tags: "idem2 fix_tags fix_tags"
  by (rule idem2I)
    (auto simp: settled_def after_def fix_tags_def Let_def pyget_eq_simps coerced_fixed2
      split: if_splits json.splits)

lemma idem2_traceback: "idem2 fix_traceback fix_traceback"
  by (rule idem2I)
    (auto simp: settled_def after_def fix_traceback_def Let_def coerced_fixed3
      split: if_splits json.splits option.splits)

lemma idem2_execution: "idem2 fix_execution fix_execution"
proof (rule idem2I)
  fix x r assume a: "fix_execution x = Inr r"
  show "settled fix_execution (after x r)"
  proof (cases "pyget x")
    case (JDict d)
    obtain b d' where c: "coerce_items (\<lambda>k v. \<not> is_str v) d = (b, d')" by force
    have "coerce_items (\<lambda>k v. \<not> is_str v) d' = (False, d')"
      by (rule coerce_items_idem[OF c]) simp
    then show ?thesis using a JDict c by (auto simp: fix_execution_def settled_def after_def)
  qed (use a in \<open>auto simp: fix_execution_def settled_def after_def\<close>)
qed

lemma need_data_str: "\<not> need_data k (JStr s)"
  by (simp add: need_data_def)

lemma idem2_data: "idem2 fix_data fix_data"
proof (rule idem2I)
  fix x r assume a: "fix_data x = Inr r"
  show "settled fix_data (after x r)"
  proof (cases "truthy (pyget x)")
    case False
    then show ?thesis using a by (auto simp: fix_data_def settled_def after_def)
  next
    case True
    show ?thesis
    proof (cases "pyget x")
      case (JDict d)
      obtain b d' where c: "coerce_items need_data d = (b, d')" by force
      have "coerce_items need_data d' = (False, d')"
        by (rule coerce_items_idem[OF c]) (rule need_data_str)
      then show ?thesis using a JDict c True
        by (cases "d' = []") (auto simp: fix_data_def settled_def after_def)
    qed (use a True in \<open>auto simp: fix_data_def settled_def after_def\<close>)
  qed
qed

subsection \<open>Rule lists\<close>

lemma good_kernelspec: "good kernelspec_rules"
  by (simp add: good_def kernelspec_rules_def idem2_default)

lemma idem2_language_info: "idem2 fix_language_info fix_language_info"
proof (rule idem2I)
  fix x r assume a: "fix_language_info x = Inr r"
  have g: "good [(''name'', fix_li_name)]" by (simp add: good_def idem2_li_name)
  show "settled fix_language_info (after x r)"
  proof (cases "pyget x")
    case (JDict d)
    with a have "inplace [(''name'', fix_li_name)] False d = Inr r" by (simp add: fix_language_info_def)
    from inplace_idem[OF g this] show ?thesis unfolding fix_language_info_def .
  qed (use a in \<open>auto simp: fix_language_info_def settled_def after_def inplace_def apply_rule_def fix_li_name_def\<close>)
qed

lemma idem2_kernelspec: "idem2 fix_kernelspec fix_kernelspec"
proof (rule idem2I)
  fix x r assume a: "fix_kernelspec x = Inr r"
  show "settled fix_kernelspec (after x r)"
  proof (cases "pyget x")
    case (JDict d)
    with a have "inplace kernelspec_rules False d = Inr r" by (simp add: fix_kernelspec_def)
    from inplace_idem[OF good_kernelspec this] show ?thesis unfolding fix_kernelspec_def .
  qed (use a in \<open>auto simp: fix_kernelspec_def settled_def after_def inplace_def apply_rule_def
         kernelspec_rules_def fix_default_def\<close>)
qed

lemma good_metadata: "good metadata_rules"
  by (simp add: good_def metadata_rules_def idem2_language_info idem2_kernelspec)

lemma idem2_metadata: "idem2 fix_metadata fix_metadata"
proof (rule idem2I)
  fix x r assume a: "fix_metadata x = Inr r"
  then obtain b d where "inplace metadata_rules b d = Inr r"
    by (cases "pyget x") (auto simp: fix_metadata_def)
  from inplace_idem[OF good_metadata this] show "settled fix_metadata (after x r)"
    unfolding fix_metadata_def .
qed

lemma good_cell_metadata: "good cell_metadata_rules"
  by (simp add: good_def cell_metadata_rules_def idem2_tags idem2_execution)

lemma fix_cell_metadata_alt:
  "fix_cell_metadata (Some v) = (case pyget (Some v) of JDict md \<Rightarrow> inplace cell_metadata_rules False md
      | _ \<Rightarrow> inplace cell_metadata_rules True [])"
  by (cases v) (simp_all add: fix_cell_metadata_def)

lemma idem2_cell_metadata: "idem2 fix_cell_metadata fix_cell_metadata"
proof (rule idem2I)
  fix x r assume a: "fix_cell_metadata x = Inr r"
  then obtain v where x: "x = Some v" by (cases x) (auto simp: fix_cell_metadata_def)
  with a obtain b d where i: "inplace cell_metadata_rules b d = Inr r"
    by (cases v) (auto simp: fix_cell_metadata_def)
  then obtain ch d' where r: "r = Some (ch, JDict d')" and p: "pass cell_metadata_rules (b, d) = Inr (ch, d')"
    by (auto simp: inplace_def split: sum.splits)
  have "pass cell_metadata_rules (False, d') = Inr (False, d')"
    using good_pass_idem[OF good_cell_metadata p] .
  then show "settled fix_cell_metadata (after x r)"
    by (simp add: settled_def after_def r fix_cell_metadata_def inplace_def)
qed

lemma keys_output_rules: "map fst (output_rules ot) =
     ''metadata'' #
     (if ot = JStr ''stream'' then [''text'', ''name'']
      else if ot = JStr ''display_data'' \<or> ot = JStr ''execute_result'' then
        ''data'' # (if ot = JStr ''execute_result'' then [''execution_count''] else [])
      else if ot = JStr ''error'' then [''traceback'', ''ename'', ''evalue'']
      else [])"
  by (simp add: output_rules_def)

lemma distinct_output_rules: "distinct (map fst (output_rules ot))"
  unfolding keys_output_rules by simp

lemma good_output_rules: "good (output_rules ot)"
  unfolding good_def
  by (rule conjI[OF distinct_output_rules])
    (simp add: output_rules_def idem2_dict_if_present idem2_to_s idem2_data
      idem2_execution_count idem2_traceback)

lemma output_rules_keys: "''output_type'' \<notin> fst ` set (output_rules ot)"
  unfolding set_map[symmetric] keys_output_rules by simp

lemma output_type_frame:
  assumes "pass (output_rules ot) (ch, d) = Inr (ch', d')"
  shows "map_of d' ''output_type'' = map_of d ''output_type''"
  by (rule pass_frame[OF assms output_rules_keys])

lemma sanitize_output_idem:
  assumes "sanitize_output out = Inr (b, out')"
  shows "sanitize_output out' = Inr (False, out')"
proof -
  from assms obtain d d' where o: "out = JDict d" "out' = JDict d'"
    and p: "pass (output_rules (pyget (map_of d ''output_type''))) (False, d) = Inr (b, d')"
    by (auto simp: sanitize_output_def split: json.splits sum.splits)
  have "pass (output_rules (pyget (map_of d ''output_type''))) (False, d') = Inr (False, d')"
    using good_pass_idem[OF good_output_rules p] .
  then show ?thesis by (simp add: sanitize_output_def o output_type_frame[OF p])
qed

lemma sanitize_outputs_idem:
  "sanitize_outputs outs = Inr (b, outs') \<Longrightarrow> sanitize_outputs outs' = Inr (False, outs')"
proof (induction outs arbitrary: b outs')
  case Nil
  then show ?case by simp
next
  case (Cons out outs)
  from Cons.prems obtain b1 out' b2 outs2 where 1: "sanitize_output out = Inr (b1, out')"
    and 2: "sanitize_outputs outs = Inr (b2, outs2)" and 3: "outs' = out' # outs2"
    by (fastforce split: sum.splits prod.splits)
  show ?case using sanitize_output_idem[OF 1] Cons.IH[OF 2] by (simp add: 3)
qed

lemma idem2_outputs: "idem2 fix_outputs fix_outputs"
proof (rule idem2I)
  fix x r assume a: "fix_outputs x = Inr r"
  show "settled fix_outputs (after x r)"
  proof (cases "truthy (pyget x)")
    case False
    then show ?thesis using a by (auto simp: fix_outputs_def settled_def after_def)
  next
    case True
    show ?thesis
    proof (cases "pyget x")
      case (JList outs)
      with a True obtain b outs' where s: "sanitize_outputs outs = Inr (b, outs')" and r: "r = Some (b, JList outs')"
        by (auto simp: fix_outputs_def split: sum.splits)
      from sanitize_outputs_idem[OF s] show ?thesis
        by (cases "outs' = []") (auto simp: fix_outputs_def settled_def after_def r)
    qed (use a True in \<open>auto simp: fix_outputs_def settled_def after_def\<close>)
  qed
qed

lemma uuid4_hex8_nonempty: "uuid4_hex8 w \<noteq> []"
  by (simp add: uuid4_hex8_def)

lemma cell_rules_idem:
  assumes "fresh \<noteq> []"
  shows "list_all2 (\<lambda>r r'. fst r' = fst r \<and> idem2 (snd r) (snd r'))
           (cell_rules strip fresh ct) (cell_rules strip fresh' ct)"
  using assms
  by (simp add: cell_rules_def idem2_id idem2_to_s idem2_cell_metadata idem2_attachments
      idem2_clear_outputs idem2_clear_execution_count idem2_outputs idem2_execution_count)

lemma keys_cell_rules: "map fst (cell_rules strip fresh ct) =
    [''id'', ''source'', ''metadata'', ''attachments''] @
     (if ct = JStr ''code'' then [''outputs'', ''execution_count''] else [])"
  by (simp add: cell_rules_def)

lemma distinct_cell_rules: "distinct (map fst (cell_rules strip fresh ct))"
  unfolding keys_cell_rules by simp

lemma cell_rules_keys: "''cell_type'' \<notin> fst ` set (cell_rules strip fresh ct)"
  unfolding set_map[symmetric] keys_cell_rules by simp

lemma cell_type_frame:
  assumes "pass (cell_rules strip fresh ct) (ch, d) = Inr (ch', d')"
  shows "map_of d' ''cell_type'' = map_of d ''cell_type''"
  by (rule pass_frame[OF assms cell_rules_keys])

lemma sanitize_cell_idem:
  assumes "sanitize_cell strip fresh c = Inr (b, c')" and "fresh \<noteq> []"
  shows "sanitize_cell strip fresh' c' = Inr (False, c')"
proof -
  from assms obtain d d' where o: "c = JDict d" "c' = JDict d'"
    and p: "pass (cell_rules strip fresh (pyget (map_of d ''cell_type''))) (False, d) = Inr (b, d')"
    by (auto simp: sanitize_cell_def split: json.splits sum.splits)
  have "pass (cell_rules strip fresh' (pyget (map_of d ''cell_type''))) (False, d') = Inr (False, d')"
    using pass_idem[OF cell_rules_idem[OF assms(2)] distinct_cell_rules p] .
  then show ?thesis by (simp add: sanitize_cell_def o cell_type_frame[OF p])
qed

lemma sanitize_cells_idem:
  "sanitize_cells strip rnd n cs = Inr (b, cs') \<Longrightarrow> sanitize_cells strip rnd' m cs' = Inr (False, cs')"
proof (induction cs arbitrary: n m b cs')
  case Nil
  then show ?case by simp
next
  case (Cons c cs)
  from Cons.prems obtain b1 c' b2 cs2 where 1: "sanitize_cell strip (uuid4_hex8 (rnd n)) c = Inr (b1, c')"
    and 2: "sanitize_cells strip rnd (if draws_id c then Suc n else n) cs = Inr (b2, cs2)"
    and 3: "cs' = c' # cs2"
    by (fastforce split: sum.splits prod.splits)
  show ?case using sanitize_cell_idem[OF 1 uuid4_hex8_nonempty] Cons.IH[OF 2] by (simp add: 3)
qed

lemma idem2_cells: "idem2 (fix_cells strip rnd) (fix_cells strip rnd')"
proof (rule idem2I)
  fix x r assume a: "fix_cells strip rnd x = Inr r"
  show "settled (fix_cells strip rnd') (after x r)"
  proof (cases "pyget x")
    case (JList cs)
    with a obtain b cs' where s: "sanitize_cells strip rnd 0 cs = Inr (b, cs')" and r: "r = Some (b, JList cs')"
      by (auto simp: fix_cells_def split: sum.splits)
    from sanitize_cells_idem[OF s] show ?thesis
      by (auto simp: fix_cells_def settled_def after_def r)
  qed (use a in \<open>auto simp: fix_cells_def settled_def after_def\<close>)
qed

lemma notebook_rules_idem:
  "list_all2 (\<lambda>r r'. fst r' = fst r \<and> idem2 (snd r) (snd r'))
     (notebook_rules strip rnd) (notebook_rules strip rnd')"
  by (simp add: notebook_rules_def idem2_nbformat idem2_nbformat_minor idem2_metadata idem2_cells)

lemma distinct_notebook_rules: "distinct (map fst (notebook_rules strip rnd))"
  by (simp add: notebook_rules_def)

lemma sanitize_notebook_idem:
  assumes "sanitize_notebook strip rnd raw = Inr (changed, raw')"
  shows "sanitize_notebook strip rnd' raw' = Inr (False, raw')"
proof -
  from assms obtain d d' where o: "raw = JDict d" "raw' = JDict d'"
    and p: "pass (notebook_rules strip rnd) (False, d) = Inr (changed, d')"
    by (auto simp: sanitize_notebook_def split: json.splits sum.splits)
  have "pass (notebook_rules strip rnd') (False, d') = Inr (False, d')"
    using pass_idem[OF notebook_rules_idem distinct_notebook_rules p] .
  then show ?thesis by (simp add: sanitize_notebook_def o)
qed

section \<open>A rule that does not set the flag leaves its key alone (normalize mode)\<close>

lemma exactI:
  assumes "\<And>x b v. g x = Inr (Some (b, v)) \<Longrightarrow> b \<or> x = Some v"
  shows "exact g"
  using assms unfolding exact_def by blast

lemma exact_nbformat: "exact fix_nbformat"
  by (rule exactI) (auto simp: fix_nbformat_def split: if_splits)

lemma exact_nbformat_minor: "exact fix_nbformat_minor"
  by (rule exactI) (auto simp: fix_nbformat_minor_def split: if_splits)

lemma exact_li_name: "exact fix_li_name"
  by (rule exactI) (auto simp: fix_li_name_def split: if_splits)

lemma exact_default: "exact (fix_default v)"
  by (rule exactI) (auto simp: fix_default_def split: if_splits)

lemma exact_dict_if_present: "exact fix_dict_if_present"
  by (rule exactI) (auto simp: fix_dict_if_present_def split: if_splits option.splits)

lemma exact_to_s: "exact fix_to_s"
  by (rule exactI) (auto simp: fix_to_s_def split: if_splits option.splits)

lemma exact_execution_count: "exact fix_execution_count"
  by (rule exactI) (auto simp: fix_execution_count_def Let_def split: if_splits)

lemma exact_clear_execution_count: "exact clear_execution_count"
  by (rule exactI) (auto simp: clear_execution_count_def split: if_splits)

lemma exact_attachments: "exact (fix_attachments ct)"
  using exact_dict_if_present by (auto simp: exact_def fix_attachments_def split: if_splits)

lemma exact_id: "exact (fix_id fresh)"
  by (rule exactI) (auto simp: fix_id_def split: if_splits)

lemma exact_tags: "exact fix_tags"
  by (rule exactI) (auto simp: fix_tags_def Let_def split: if_splits json.splits)

lemma exact_traceback: "exact fix_traceback"
  by (rule exactI) (auto simp: fix_traceback_def Let_def split: if_splits option.splits)

lemma exact_execution: "exact fix_execution"
proof (rule exactI)
  fix x b v assume a: "fix_execution x = Inr (Some (b, v))"
  show "b \<or> x = Some v"
  proof (cases b)
    case False
    from a obtain d d' where x: "x = Some (JDict d)" and c: "coerce_items (\<lambda>k v. \<not> is_str v) d = (b, d')"
      and v: "v = JDict d'"
      by (cases "pyget x"; cases "coerce_items (\<lambda>k v. \<not> is_str v) (case pyget x of JDict d \<Rightarrow> d)")
         (auto simp: fix_execution_def pyget_eq_simps)
    from c False have "d' = d" by (auto dest: coerce_items_quiet)
    then show ?thesis by (simp add: x v)
  qed simp
qed

lemma exact_data: "exact fix_data"
proof (rule exactI)
  fix x b v assume a: "fix_data x = Inr (Some (b, v))"
  show "b \<or> x = Some v"
  proof (cases b)
    case False
    from a False obtain d d' where x: "x = Some (JDict d)" and c: "coerce_items need_data d = (b, d')"
      and v: "v = JDict d'"
      by (cases "pyget x"; cases "coerce_items need_data (case pyget x of JDict d \<Rightarrow> d)")
         (auto simp: fix_data_def pyget_eq_simps Let_def split: if_splits)
    from c False have "d' = d" by (auto dest: coerce_items_quiet)
    then show ?thesis by (simp add: x v)
  qed simp
qed

lemma exact_pass_quiet:
  assumes "exact_rules rs" and "pass rs (ch, d) = Inr (False, d')"
  shows "d' = d"
proof -
  have "\<forall>(k, g) \<in> set rs. exact g" using assms(1) by (auto simp: exact_rules_def list_all_iff)
  from pass_quiet[OF this assms(2)] show ?thesis by simp
qed

lemma inplace_exact:
  assumes "exact_rules rs" and "inplace rs False d = Inr (Some (b, v))"
  shows "b \<or> v = JDict d"
proof (cases b)
  case False
  with assms(2) obtain d' where p: "pass rs (False, d) = Inr (False, d')" and v: "v = JDict d'"
    by (auto simp: inplace_def split: sum.splits)
  from exact_pass_quiet[OF assms(1) p] show ?thesis by (simp add: v)
qed simp

lemma inplace_True:
  assumes "inplace rs True d = Inr (Some (b, v))"
  shows b
  using assms pass_flag[of rs True d] by (auto simp: inplace_def split: sum.splits)

lemma exact_language_info: "exact fix_language_info"
proof (rule exactI)
  fix x b v assume a: "fix_language_info x = Inr (Some (b, v))"
  have e: "exact_rules [(''name'', fix_li_name)]" by (simp add: exact_rules_def exact_li_name)
  show "b \<or> x = Some v"
  proof (cases "pyget x")
    case (JDict d)
    with a inplace_exact[OF e, of d b v] show ?thesis by (auto simp: fix_language_info_def pyget_eq_simps)
  qed (use a in \<open>auto simp: fix_language_info_def\<close>)
qed

lemma exact_kernelspec: "exact fix_kernelspec"
proof (rule exactI)
  fix x b v assume a: "fix_kernelspec x = Inr (Some (b, v))"
  have e: "exact_rules kernelspec_rules" by (simp add: exact_rules_def kernelspec_rules_def exact_default)
  show "b \<or> x = Some v"
  proof (cases "pyget x")
    case (JDict d)
    with a inplace_exact[OF e, of d b v] show ?thesis by (auto simp: fix_kernelspec_def pyget_eq_simps)
  qed (use a in \<open>auto simp: fix_kernelspec_def\<close>)
qed

lemma exact_metadata_rules: "exact_rules metadata_rules"
  by (simp add: exact_rules_def metadata_rules_def exact_language_info exact_kernelspec)

lemma exact_metadata: "exact fix_metadata"
proof (rule exactI)
  fix x b v assume a: "fix_metadata x = Inr (Some (b, v))"
  show "b \<or> x = Some v"
  proof (cases "pyget x")
    case (JDict d)
    with a inplace_exact[OF exact_metadata_rules, of d b v] show ?thesis
      by (auto simp: fix_metadata_def pyget_eq_simps)
  qed (use a inplace_True[of metadata_rules "[]" b v] in \<open>auto simp: fix_metadata_def\<close>)
qed

lemma exact_cell_metadata_rules: "exact_rules cell_metadata_rules"
  by (simp add: exact_rules_def cell_metadata_rules_def exact_tags exact_execution)

lemma exact_cell_metadata: "exact fix_cell_metadata"
proof (rule exactI)
  fix x b v assume a: "fix_cell_metadata x = Inr (Some (b, v))"
  then obtain w where x: "x = Some w" by (cases x) (auto simp: fix_cell_metadata_def)
  show "b \<or> x = Some v"
  proof (cases w)
    case (JDict d)
    with a inplace_exact[OF exact_cell_metadata_rules, of d b v] show ?thesis
      by (auto simp: fix_cell_metadata_def x)
  qed (use a x inplace_True[of cell_metadata_rules "[]" b v] in \<open>auto simp: fix_cell_metadata_def\<close>)
qed

lemma exact_output_rules: "exact_rules (output_rules ot)"
  by (simp add: exact_rules_def output_rules_def exact_dict_if_present exact_to_s exact_data
      exact_execution_count exact_traceback)

lemma sanitize_output_quiet:
  assumes "sanitize_output out = Inr (False, out')"
  shows "out' = out"
proof -
  from assms obtain d d' where o: "out = JDict d" "out' = JDict d'"
    and p: "pass (output_rules (pyget (map_of d ''output_type''))) (False, d) = Inr (False, d')"
    by (auto simp: sanitize_output_def split: json.splits sum.splits)
  from exact_pass_quiet[OF exact_output_rules p] show ?thesis by (simp add: o)
qed

lemma sanitize_outputs_quiet:
  "sanitize_outputs outs = Inr (False, outs') \<Longrightarrow> outs' = outs"
proof (induction outs arbitrary: outs')
  case Nil
  then show ?case by simp
next
  case (Cons out outs)
  from Cons.prems obtain out' outs2 where 1: "sanitize_output out = Inr (False, out')"
    and 2: "sanitize_outputs outs = Inr (False, outs2)" and 3: "outs' = out' # outs2"
    by (fastforce split: sum.splits prod.splits)
  show ?case using sanitize_output_quiet[OF 1] Cons.IH[OF 2] by (simp add: 3)
qed

lemma exact_outputs: "exact fix_outputs"
proof (rule exactI)
  fix x b v assume a: "fix_outputs x = Inr (Some (b, v))"
  show "b \<or> x = Some v"
  proof (cases b)
    case False
    with a obtain outs outs' where x: "x = Some (JList outs)" and s: "sanitize_outputs outs = Inr (False, outs')"
      and v: "v = JList outs'"
      by (cases "pyget x") (auto simp: fix_outputs_def Let_def pyget_eq_simps split: if_splits sum.splits)
    from sanitize_outputs_quiet[OF s] show ?thesis by (simp add: x v)
  qed simp
qed

lemma exact_cell_rules: "exact_rules (cell_rules False fresh ct)"
  by (simp add: exact_rules_def cell_rules_def exact_id exact_to_s exact_cell_metadata
      exact_attachments exact_outputs exact_execution_count)

lemma sanitize_cell_quiet:
  assumes "sanitize_cell False fresh c = Inr (False, c')"
  shows "c' = c"
proof -
  from assms obtain d d' where o: "c = JDict d" "c' = JDict d'"
    and p: "pass (cell_rules False fresh (pyget (map_of d ''cell_type''))) (False, d) = Inr (False, d')"
    by (auto simp: sanitize_cell_def split: json.splits sum.splits)
  from exact_pass_quiet[OF exact_cell_rules p] show ?thesis by (simp add: o)
qed

lemma sanitize_cells_quiet:
  "sanitize_cells False rnd n cs = Inr (False, cs') \<Longrightarrow> cs' = cs"
proof (induction cs arbitrary: n cs')
  case Nil
  then show ?case by simp
next
  case (Cons c cs)
  from Cons.prems obtain c' cs2 where 1: "sanitize_cell False (uuid4_hex8 (rnd n)) c = Inr (False, c')"
    and 2: "sanitize_cells False rnd (if draws_id c then Suc n else n) cs = Inr (False, cs2)"
    and 3: "cs' = c' # cs2"
    by (fastforce split: sum.splits prod.splits)
  show ?case using sanitize_cell_quiet[OF 1] Cons.IH[OF 2] by (simp add: 3)
qed

lemma exact_cells: "exact (fix_cells False rnd)"
proof (rule exactI)
  fix x b v assume a: "fix_cells False rnd x = Inr (Some (b, v))"
  show "b \<or> x = Some v"
  proof (cases b)
    case False
    with a obtain cs cs' where x: "x = Some (JList cs)" and s: "sanitize_cells False rnd 0 cs = Inr (False, cs')"
      and v: "v = JList cs'"
      by (cases "pyget x") (auto simp: fix_cells_def pyget_eq_simps split: sum.splits)
    from sanitize_cells_quiet[OF s] show ?thesis by (simp add: x v)
  qed simp
qed

lemma exact_notebook_rules: "exact_rules (notebook_rules False rnd)"
  by (simp add: exact_rules_def notebook_rules_def exact_nbformat exact_nbformat_minor
      exact_metadata exact_cells)

lemma sanitize_notebook_quiet:
  assumes "sanitize_notebook False rnd raw = Inr (False, raw')"
  shows "raw' = raw"
proof -
  from assms obtain d d' where o: "raw = JDict d" "raw' = JDict d'"
    and p: "pass (notebook_rules False rnd) (False, d) = Inr (False, d')"
    by (auto simp: sanitize_notebook_def split: json.splits sum.splits)
  from exact_pass_quiet[OF exact_notebook_rules p] show ?thesis by (simp add: o)
qed

lemma sanitize_notebook_changed:
  assumes "sanitize_notebook strip rnd raw = Inr (True, raw')"
  shows "raw' \<noteq> raw"
proof
  assume "raw' = raw"
  with sanitize_notebook_idem[OF assms, of rnd] assms show False by simp
qed

section \<open>What a run does to each cell and each output\<close>

lemma field_JDict [simp]: "field k (JDict d) = map_of d k"
  by (simp add: field_def)

lemma cell_run_mono: "cell_run strip a c c' \<Longrightarrow> (a \<longrightarrow> b) \<Longrightarrow> cell_run strip b c c'"
  unfolding cell_run_def by blast

lemma output_run_mono: "output_run a out out' \<Longrightarrow> (a \<longrightarrow> b) \<Longrightarrow> output_run b out out'"
  unfolding output_run_def by blast

lemma cells_run_mono:
  "list_all2 (cell_run strip a) cs cs' \<Longrightarrow> (a \<longrightarrow> b) \<Longrightarrow> list_all2 (cell_run strip b) cs cs'"
  by (erule list_all2_mono) (rule cell_run_mono)

lemma outputs_run_mono:
  "list_all2 (output_run a) outs outs' \<Longrightarrow> (a \<longrightarrow> b) \<Longrightarrow> list_all2 (output_run b) outs outs'"
  by (erule list_all2_mono) (rule output_run_mono)

lemma sanitize_cells_run:
  "sanitize_cells strip rnd n cs = Inr (ch, cs') \<Longrightarrow> list_all2 (cell_run strip ch) cs cs'"
proof (induction cs arbitrary: n ch cs')
  case Nil
  then show ?case by simp
next
  case (Cons c cs)
  from Cons.prems obtain b1 c' b2 cs2 where 1: "sanitize_cell strip (uuid4_hex8 (rnd n)) c = Inr (b1, c')"
    and 2: "sanitize_cells strip rnd (if draws_id c then Suc n else n) cs = Inr (b2, cs2)"
    and 3: "cs' = c' # cs2" "ch = (b1 \<or> b2)"
    by (fastforce split: sum.splits prod.splits)
  have "cell_run strip ch c c'" using 1 3 uuid4_hex8_nonempty by (auto simp: cell_run_def)
  moreover have "list_all2 (cell_run strip ch) cs cs2"
    using cells_run_mono[OF Cons.IH[OF 2]] 3 by simp
  ultimately show ?case by (simp add: 3)
qed

lemma sanitize_outputs_run:
  "sanitize_outputs outs = Inr (ch, outs') \<Longrightarrow> list_all2 (output_run ch) outs outs'"
proof (induction outs arbitrary: ch outs')
  case Nil
  then show ?case by simp
next
  case (Cons out outs)
  from Cons.prems obtain b1 out' b2 outs2 where 1: "sanitize_output out = Inr (b1, out')"
    and 2: "sanitize_outputs outs = Inr (b2, outs2)" and 3: "outs' = out' # outs2" "ch = (b1 \<or> b2)"
    by (fastforce split: sum.splits prod.splits)
  have "output_run ch out out'" using 1 3 by (auto simp: output_run_def)
  moreover have "list_all2 (output_run ch) outs outs2"
    using outputs_run_mono[OF Cons.IH[OF 2]] 3 by simp
  ultimately show ?case by (simp add: 3)
qed

lemma notebookE:
  assumes "sanitize_notebook strip rnd raw = Inr (ch, raw')"
  obtains d d' where "raw = JDict d" "raw' = JDict d'"
    "pass (notebook_rules strip rnd) (False, d) = Inr (ch, d')"
  using assms by (auto simp: sanitize_notebook_def split: json.splits sum.splits)

lemma cellE:
  assumes "sanitize_cell strip fresh c = Inr (b, c')"
  obtains d d' where "c = JDict d" "c' = JDict d'"
    "pass (cell_rules strip fresh (pyget (map_of d ''cell_type''))) (False, d) = Inr (b, d')"
  using assms by (auto simp: sanitize_cell_def split: json.splits sum.splits)

lemma outputE:
  assumes "sanitize_output out = Inr (b, out')"
  obtains d d' where "out = JDict d" "out' = JDict d'"
    "pass (output_rules (pyget (map_of d ''output_type''))) (False, d) = Inr (b, d')"
  using assms by (auto simp: sanitize_output_def split: json.splits sum.splits)

lemma notebook_cells_run:
  assumes "sanitize_notebook strip rnd raw = Inr (ch, raw')"
  shows "list_all2 (cell_run strip ch) (cells_of raw) (cells_of raw')"
    and "\<exists>cs. field ''cells'' raw' = Some (JList cs)"
proof -
  from assms obtain d d' where o: "raw = JDict d" "raw' = JDict d'"
    and p: "pass (notebook_rules strip rnd) (False, d) = Inr (ch, d')" by (rule notebookE)
  have m: "(''cells'', fix_cells strip rnd) \<in> set (notebook_rules strip rnd)"
    by (simp add: notebook_rules_def)
  from pass_result[OF distinct_notebook_rules m p] obtain r
    where r: "fix_cells strip rnd (map_of d ''cells'') = Inr r"
      "map_of d' ''cells'' = after (map_of d ''cells'') r" "\<And>v. r = Some (True, v) \<Longrightarrow> ch" by blast
  show "list_all2 (cell_run strip ch) (cells_of raw) (cells_of raw')"
  proof (cases "pyget (map_of d ''cells'')")
    case (JList cs)
    with r(1) obtain b cs' where s: "sanitize_cells strip rnd 0 cs = Inr (b, cs')" and rr: "r = Some (b, JList cs')"
      by (auto simp: fix_cells_def split: sum.splits)
    have "list_all2 (cell_run strip b) cs cs'" using sanitize_cells_run[OF s] .
    then have "list_all2 (cell_run strip ch) cs cs'"
      using r(3) rr by (auto intro: cells_run_mono)
    then show ?thesis using JList r(2) rr by (simp add: cells_of_def o after_def pyget_eq_simps)
  qed (use r in \<open>auto simp: fix_cells_def cells_of_def o after_def pyget_eq_simps split: option.splits json.splits\<close>)
  show "\<exists>cs. field ''cells'' raw' = Some (JList cs)"
    using r by (cases "pyget (map_of d ''cells'')") (auto simp: fix_cells_def o after_def split: sum.splits)
qed

section \<open>What a run leaves in each field\<close>

lemma inplaceE:
  assumes "inplace rs b0 d = Inr r"
  obtains b d' where "r = Some (b, JDict d')" "pass rs (b0, d) = Inr (b, d')"
  using assms by (auto simp: inplace_def split: sum.splits)

lemma language_info_result:
  assumes "fix_language_info x = Inr r"
  shows "\<exists>b li s. r = Some (b, JDict li) \<and> map_of li ''name'' = Some (JStr s)"
proof (cases "pyget x")
  case (JDict li0)
  with assms have "inplace [(''name'', fix_li_name)] False li0 = Inr r"
    by (simp add: fix_language_info_def)
  then obtain b li where r: "r = Some (b, JDict li)"
    and p: "pass [(''name'', fix_li_name)] (False, li0) = Inr (b, li)" by (rule inplaceE)
  from pass_result[OF _ _ p, of "''name''" fix_li_name] obtain r1
    where "fix_li_name (map_of li0 ''name'') = Inr r1" "map_of li ''name'' = after (map_of li0 ''name'') r1"
    by auto
  then have "\<exists>s. map_of li ''name'' = Some (JStr s)"
    by (cases "map_of li0 ''name''"; cases "pyget (map_of li0 ''name'')")
       (auto simp: fix_li_name_def after_def split: if_splits)
  then show ?thesis using r by blast
qed (use assms in \<open>auto simp: fix_language_info_def\<close>)

lemma default_result:
  assumes "fix_default v x = Inr r"
  shows "pyget (after x r) \<noteq> JNull"
  using assms by (cases x) (auto simp: fix_default_def after_def split: if_splits)

lemma kernelspec_result:
  assumes "fix_kernelspec x = Inr r"
  shows "\<exists>b ks. r = Some (b, JDict ks) \<and> pyget (map_of ks ''name'') \<noteq> JNull
           \<and> pyget (map_of ks ''display_name'') \<noteq> JNull"
proof (cases "pyget x")
  case (JDict ks0)
  with assms have "inplace kernelspec_rules False ks0 = Inr r"
    by (simp add: fix_kernelspec_def)
  then obtain b ks where r: "r = Some (b, JDict ks)"
    and p: "pass kernelspec_rules (False, ks0) = Inr (b, ks)" by (rule inplaceE)
  have d: "distinct (map fst kernelspec_rules)" by (simp add: kernelspec_rules_def)
  from pass_result[OF d _ p, of "''name''" "fix_default ''python3''"] obtain r1
    where "fix_default ''python3'' (map_of ks0 ''name'') = Inr r1"
      "map_of ks ''name'' = after (map_of ks0 ''name'') r1"
    by (auto simp: kernelspec_rules_def)
  then have 1: "pyget (map_of ks ''name'') \<noteq> JNull" using default_result by simp
  from pass_result[OF d _ p, of "''display_name''" "fix_default ''Python 3''"] obtain r2
    where "fix_default ''Python 3'' (map_of ks0 ''display_name'') = Inr r2"
      "map_of ks ''display_name'' = after (map_of ks0 ''display_name'') r2"
    by (auto simp: kernelspec_rules_def)
  then have 2: "pyget (map_of ks ''display_name'') \<noteq> JNull" using default_result by simp
  from r 1 2 show ?thesis by blast
qed (use assms in \<open>auto simp: fix_kernelspec_def\<close>)

lemma metadata_result:
  assumes "fix_metadata x = Inr r"
  shows "\<exists>b md li s ks. r = Some (b, JDict md)
           \<and> map_of md ''language_info'' = Some (JDict li) \<and> map_of li ''name'' = Some (JStr s)
           \<and> map_of md ''kernelspec'' = Some (JDict ks)
           \<and> pyget (map_of ks ''name'') \<noteq> JNull \<and> pyget (map_of ks ''display_name'') \<noteq> JNull"
proof -
  from assms obtain b0 md0 where "inplace metadata_rules b0 md0 = Inr r"
    by (cases "pyget x") (auto simp: fix_metadata_def)
  then obtain b md where r: "r = Some (b, JDict md)"
    and p: "pass metadata_rules (b0, md0) = Inr (b, md)" by (rule inplaceE)
  have d: "distinct (map fst metadata_rules)" by (simp add: metadata_rules_def)
  from pass_result[OF d _ p, of "''language_info''" fix_language_info] obtain r1
    where r1: "fix_language_info (map_of md0 ''language_info'') = Inr r1"
      "map_of md ''language_info'' = after (map_of md0 ''language_info'') r1"
    by (auto simp: metadata_rules_def)
  from language_info_result[OF r1(1)] r1(2)
  obtain li s where 1: "map_of md ''language_info'' = Some (JDict li)" "map_of li ''name'' = Some (JStr s)"
    by (auto simp: after_def)
  from pass_result[OF d _ p, of "''kernelspec''" fix_kernelspec] obtain r2
    where r2: "fix_kernelspec (map_of md0 ''kernelspec'') = Inr r2"
      "map_of md ''kernelspec'' = after (map_of md0 ''kernelspec'') r2"
    by (auto simp: metadata_rules_def)
  from kernelspec_result[OF r2(1)] r2(2)
  obtain ks where 2: "map_of md ''kernelspec'' = Some (JDict ks)"
    "pyget (map_of ks ''name'') \<noteq> JNull" "pyget (map_of ks ''display_name'') \<noteq> JNull"
    by (auto simp: after_def)
  from r 1 2 show ?thesis by blast
qed

lemma notebook_top:
  assumes "sanitize_notebook strip rnd raw = Inr (ch, raw')"
  shows "field ''nbformat'' raw' = Some (JInt 4) \<or> field ''nbformat'' raw' = Some (JFloat ''4.0'')"
    and "\<exists>v. field ''nbformat_minor'' raw' = Some v \<and> is_int v"
    and "\<exists>md li s ks. field ''metadata'' raw' = Some (JDict md)
           \<and> map_of md ''language_info'' = Some (JDict li) \<and> map_of li ''name'' = Some (JStr s)
           \<and> map_of md ''kernelspec'' = Some (JDict ks)
           \<and> pyget (map_of ks ''name'') \<noteq> JNull \<and> pyget (map_of ks ''display_name'') \<noteq> JNull"
proof -
  from assms obtain d d' where o: "raw = JDict d" "raw' = JDict d'"
    and p: "pass (notebook_rules strip rnd) (False, d) = Inr (ch, d')" by (rule notebookE)
  note dist = distinct_notebook_rules
  from pass_result[OF dist _ p, of "''nbformat''" fix_nbformat] obtain r1
    where "fix_nbformat (map_of d ''nbformat'') = Inr r1"
      "map_of d' ''nbformat'' = after (map_of d ''nbformat'') r1"
    by (auto simp: notebook_rules_def)
  then show "field ''nbformat'' raw' = Some (JInt 4) \<or> field ''nbformat'' raw' = Some (JFloat ''4.0'')"
    by (cases "map_of d ''nbformat''"; cases "pyget (map_of d ''nbformat'')")
       (auto simp: fix_nbformat_def after_def o split: if_splits)
  from pass_result[OF dist _ p, of "''nbformat_minor''" fix_nbformat_minor] obtain r2
    where "fix_nbformat_minor (map_of d ''nbformat_minor'') = Inr r2"
      "map_of d' ''nbformat_minor'' = after (map_of d ''nbformat_minor'') r2"
    by (auto simp: notebook_rules_def)
  then show "\<exists>v. field ''nbformat_minor'' raw' = Some v \<and> is_int v"
    by (cases "map_of d ''nbformat_minor''")
       (auto simp: fix_nbformat_minor_def after_def o split: if_splits)
  from pass_result[OF dist _ p, of "''metadata''" fix_metadata] obtain r3
    where r3: "fix_metadata (map_of d ''metadata'') = Inr r3"
      "map_of d' ''metadata'' = after (map_of d ''metadata'') r3"
    by (auto simp: notebook_rules_def)
  from metadata_result[OF r3(1)] r3(2)
  show "\<exists>md li s ks. field ''metadata'' raw' = Some (JDict md)
           \<and> map_of md ''language_info'' = Some (JDict li) \<and> map_of li ''name'' = Some (JStr s)
           \<and> map_of md ''kernelspec'' = Some (JDict ks)
           \<and> pyget (map_of ks ''name'') \<noteq> JNull \<and> pyget (map_of ks ''display_name'') \<noteq> JNull"
    by (auto simp: after_def o)
qed


lemma cell_runE:
  assumes "cell_run strip ch c c'"
  obtains fresh b d d' where "fresh \<noteq> []" "b \<longrightarrow> ch" "c = JDict d" "c' = JDict d'"
    "pass (cell_rules strip fresh (pyget (map_of d ''cell_type''))) (False, d) = Inr (b, d')"
proof -
  from assms obtain fresh b where f: "fresh \<noteq> []" "b \<longrightarrow> ch"
    and s: "sanitize_cell strip fresh c = Inr (b, c')"
    unfolding cell_run_def by blast
  from s obtain d d' where "c = JDict d" "c' = JDict d'"
    "pass (cell_rules strip fresh (pyget (map_of d ''cell_type''))) (False, d) = Inr (b, d')"
    by (rule cellE)
  with f show thesis by (rule that)
qed

lemma cell_id_result:
  assumes "cell_run strip ch c c'"
  shows "\<exists>s. field ''id'' c' = Some (JStr s) \<and> s \<noteq> []"
proof -
  from assms obtain fresh b d d' where f: "fresh \<noteq> []" and o: "c = JDict d" "c' = JDict d'"
    and p: "pass (cell_rules strip fresh (pyget (map_of d ''cell_type''))) (False, d) = Inr (b, d')"
    by (rule cell_runE)
  from pass_result[OF distinct_cell_rules _ p, of "''id''" "fix_id fresh"] obtain r
    where "fix_id fresh (map_of d ''id'') = Inr r" "map_of d' ''id'' = after (map_of d ''id'') r"
    by (auto simp: cell_rules_def)
  then show ?thesis using f
    by (cases "map_of d ''id''"; cases "pyget (map_of d ''id'')")
       (auto simp: fix_id_def needs_id_def after_def o split: if_splits)
qed

lemma cell_source_result:
  assumes "cell_run strip ch c c'"
  shows "field ''source'' c' = map_option (\<lambda>v. JStr (to_s_text v)) (field ''source'' c)"
proof -
  from assms obtain fresh b d d' where o: "c = JDict d" "c' = JDict d'"
    and p: "pass (cell_rules strip fresh (pyget (map_of d ''cell_type''))) (False, d) = Inr (b, d')"
    by (rule cell_runE)
  from pass_result[OF distinct_cell_rules _ p, of "''source''" fix_to_s] obtain r
    where "fix_to_s (map_of d ''source'') = Inr r" "map_of d' ''source'' = after (map_of d ''source'') r"
    by (auto simp: cell_rules_def)
  then show ?thesis
    by (cases "map_of d ''source''"; cases "pyget (map_of d ''source'')")
       (auto simp: fix_to_s_def after_def o split: if_splits)
qed

lemma cell_tags_result:
  assumes "cell_run strip ch c c'" and "tags_of c = Some (JList ts)"
  shows "tags_of c' = Some (JList [JStr (to_s_text t). t \<leftarrow> ts, t \<noteq> JNull])"
    and "[JStr (to_s_text t). t \<leftarrow> ts, t \<noteq> JNull] \<noteq> ts \<Longrightarrow> ch"
proof -
  from assms(1) obtain fresh b d d' where bch: "b \<longrightarrow> ch" and o: "c = JDict d" "c' = JDict d'"
    and p: "pass (cell_rules strip fresh (pyget (map_of d ''cell_type''))) (False, d) = Inr (b, d')"
    by (rule cell_runE)
  from assms(2) obtain md where md: "map_of d ''metadata'' = Some (JDict md)"
    and t: "map_of md ''tags'' = Some (JList ts)"
    by (auto simp: tags_of_def o field_def split: option.splits json.splits)
  from pass_result[OF distinct_cell_rules _ p, of "''metadata''" fix_cell_metadata] obtain r
    where r: "fix_cell_metadata (map_of d ''metadata'') = Inr r"
      "map_of d' ''metadata'' = after (map_of d ''metadata'') r" "\<And>v. r = Some (True, v) \<Longrightarrow> b"
    by (auto simp: cell_rules_def)
  from r(1) md have "inplace cell_metadata_rules False md = Inr r" by (simp add: fix_cell_metadata_def)
  then obtain b1 md' where r1: "r = Some (b1, JDict md')"
    and p1: "pass cell_metadata_rules (False, md) = Inr (b1, md')" by (rule inplaceE)
  have dm: "distinct (map fst cell_metadata_rules)" by (simp add: cell_metadata_rules_def)
  from pass_result[OF dm _ p1, of "''tags''" fix_tags] obtain r2
    where r2: "fix_tags (map_of md ''tags'') = Inr r2"
      "map_of md' ''tags'' = after (map_of md ''tags'') r2" "\<And>v. r2 = Some (True, v) \<Longrightarrow> b1"
    by (auto simp: cell_metadata_rules_def)
  have m': "map_of d' ''metadata'' = Some (JDict md')" using r(2) r1 by (simp add: after_def)
  show "tags_of c' = Some (JList [JStr (to_s_text t). t \<leftarrow> ts, t \<noteq> JNull])"
    using r2(1,2) t m' by (auto simp: fix_tags_def Let_def after_def tags_of_def o split: if_splits)
  show ch if "[JStr (to_s_text t). t \<leftarrow> ts, t \<noteq> JNull] \<noteq> ts"
  proof -
    from that r2(1) t have "r2 = Some (True, JList [JStr (to_s_text t). t \<leftarrow> ts, t \<noteq> JNull])"
      by (auto simp: fix_tags_def Let_def)
    then have b1 using r2(3) by simp
    then have b using r(3) r1 by simp
    then show ch using bch by simp
  qed
qed

lemma cell_strip_result:
  assumes "cell_run True ch c c'" and "field ''cell_type'' c = Some (JStr ''code'')"
  shows "field ''outputs'' c' = Some (JList [])"
    and "field ''execution_count'' c' = (if field ''execution_count'' c = None then None else Some JNull)"
    and "truthy (pyget (field ''outputs'' c)) \<or> pyget (field ''execution_count'' c) \<noteq> JNull \<Longrightarrow> ch"
proof -
  from assms(1) obtain fresh b d d' where bch: "b \<longrightarrow> ch" and o: "c = JDict d" "c' = JDict d'"
    and p0: "pass (cell_rules True fresh (pyget (map_of d ''cell_type''))) (False, d) = Inr (b, d')"
    by (rule cell_runE)
  from assms(2) have ct: "pyget (map_of d ''cell_type'') = JStr ''code''" by (simp add: o)
  note p = p0[unfolded ct]
  from pass_result[OF distinct_cell_rules _ p, of "''outputs''" clear_outputs] obtain r1
    where r1: "clear_outputs (map_of d ''outputs'') = Inr r1"
      "map_of d' ''outputs'' = after (map_of d ''outputs'') r1" "\<And>v. r1 = Some (True, v) \<Longrightarrow> b"
    by (auto simp: cell_rules_def)
  from pass_result[OF distinct_cell_rules _ p, of "''execution_count''" clear_execution_count] obtain r2
    where r2: "clear_execution_count (map_of d ''execution_count'') = Inr r2"
      "map_of d' ''execution_count'' = after (map_of d ''execution_count'') r2"
      "\<And>v. r2 = Some (True, v) \<Longrightarrow> b"
    by (auto simp: cell_rules_def)
  show "field ''outputs'' c' = Some (JList [])"
    using r1(1,2) by (auto simp: clear_outputs_def after_def o)
  show "field ''execution_count'' c' = (if field ''execution_count'' c = None then None else Some JNull)"
    using r2(1,2) by (cases "map_of d ''execution_count''")
      (auto simp: clear_execution_count_def after_def o split: if_splits)
  show ch if "truthy (pyget (field ''outputs'' c)) \<or> pyget (field ''execution_count'' c) \<noteq> JNull"
  proof -
    from that have "(\<exists>v. r1 = Some (True, v)) \<or> (\<exists>v. r2 = Some (True, v))"
      using r1(1) r2(1) by (auto simp: clear_outputs_def clear_execution_count_def o)
    then have b using r1(3) r2(3) by blast
    then show ch using bch by simp
  qed
qed


lemma field_not_dict: "\<not> is_dict v \<Longrightarrow> field k v = None"
  by (cases v) (simp_all add: field_def)

lemma falsy_field: "\<not> truthy v \<Longrightarrow> field k v = None"
  by (cases v) (simp_all add: field_def)

lemma cell_outputs_result:
  assumes "cell_run False ch c c'" and "field ''cell_type'' c = Some (JStr ''code'')"
  shows "\<not> truthy (pyget (field ''outputs'' c)) \<Longrightarrow> field ''outputs'' c' = field ''outputs'' c"
    and "truthy (pyget (field ''outputs'' c)) \<Longrightarrow> \<not> is_list (pyget (field ''outputs'' c))
           \<Longrightarrow> field ''outputs'' c' = Some (JList []) \<and> ch"
    and "list_all2 (output_run ch) (outputs_of c) (outputs_of c')"
proof -
  from assms(1) obtain fresh b d d' where bch: "b \<longrightarrow> ch" and o: "c = JDict d" "c' = JDict d'"
    and p0: "pass (cell_rules False fresh (pyget (map_of d ''cell_type''))) (False, d) = Inr (b, d')"
    by (rule cell_runE)
  from assms(2) have ct: "pyget (map_of d ''cell_type'') = JStr ''code''" by (simp add: o)
  note p = p0[unfolded ct]
  from pass_result[OF distinct_cell_rules _ p, of "''outputs''" fix_outputs] obtain r
    where r: "fix_outputs (map_of d ''outputs'') = Inr r"
      "map_of d' ''outputs'' = after (map_of d ''outputs'') r" "\<And>v. r = Some (True, v) \<Longrightarrow> b"
    by (auto simp: cell_rules_def)
  show 1: "field ''outputs'' c' = field ''outputs'' c" if "\<not> truthy (pyget (field ''outputs'' c))"
    using that r(1,2) by (auto simp: fix_outputs_def after_def o)
  show 2: "field ''outputs'' c' = Some (JList []) \<and> ch"
    if "truthy (pyget (field ''outputs'' c))" "\<not> is_list (pyget (field ''outputs'' c))"
  proof -
    from that r(1) have "r = Some (True, JList [])"
      by (cases "pyget (map_of d ''outputs'')") (auto simp: fix_outputs_def o)
    then show ?thesis using r(2,3) bch by (simp add: after_def o)
  qed
  show "list_all2 (output_run ch) (outputs_of c) (outputs_of c')"
  proof (cases "truthy (pyget (field ''outputs'' c))")
    case False
    then have "outputs_of c' = outputs_of c" using 1 by (simp add: outputs_of_def)
    moreover have "outputs_of c = []" using False
      by (cases "map_of d ''outputs''"; cases "pyget (map_of d ''outputs'')") (auto simp: outputs_of_def o)
    ultimately show ?thesis by simp
  next
    case True
    show ?thesis
    proof (cases "pyget (field ''outputs'' c)")
      case (JList outs)
      then have x: "map_of d ''outputs'' = Some (JList outs)" by (simp add: o pyget_eq_simps)
      with r(1) True JList obtain b1 outs' where s: "sanitize_outputs outs = Inr (b1, outs')"
        and rr: "r = Some (b1, JList outs')"
        by (auto simp: fix_outputs_def o split: sum.splits)
      have "b1 \<longrightarrow> ch" using r(3) rr bch by (cases b1) auto
      from outputs_run_mono[OF sanitize_outputs_run[OF s] this]
      show ?thesis using x r(2) rr by (simp add: outputs_of_def o after_def)
    next
      case JNull with True show ?thesis by simp
    next
      case (JBool x) then show ?thesis using 2[OF True] by (auto simp: outputs_of_def o pyget_eq_simps split: option.splits)
    next
      case (JInt x) then show ?thesis using 2[OF True] by (auto simp: outputs_of_def o pyget_eq_simps split: option.splits)
    next
      case (JFloat x) then show ?thesis using 2[OF True] by (auto simp: outputs_of_def o pyget_eq_simps split: option.splits)
    next
      case (JStr x) then show ?thesis using 2[OF True] by (auto simp: outputs_of_def o pyget_eq_simps split: option.splits)
    next
      case (JDict x) then show ?thesis using 2[OF True] by (auto simp: outputs_of_def o pyget_eq_simps split: option.splits)
    qed
  qed
qed

lemma output_data_result:
  assumes "output_run ch out out'"
    and "field ''output_type'' out = Some (JStr ''display_data'')
         \<or> field ''output_type'' out = Some (JStr ''execute_result'')"
  shows "entry k out' = map_option (\<lambda>v. if need_data k v then JStr (to_s_text v) else v) (entry k out)"
proof -
  from assms(1) obtain b where "sanitize_output out = Inr (b, out')" unfolding output_run_def by blast
  then obtain d d' where o: "out = JDict d" "out' = JDict d'"
    and p: "pass (output_rules (pyget (map_of d ''output_type''))) (False, d) = Inr (b, d')"
    by (rule outputE)
  from assms(2) have ot: "pyget (map_of d ''output_type'') = JStr ''display_data''
      \<or> pyget (map_of d ''output_type'') = JStr ''execute_result''" by (auto simp: o)
  then have m: "(''data'', fix_data) \<in> set (output_rules (pyget (map_of d ''output_type'')))"
    by (auto simp: output_rules_def)
  from pass_result[OF distinct_output_rules m p] obtain r
    where r: "fix_data (map_of d ''data'') = Inr r" "map_of d' ''data'' = after (map_of d ''data'') r"
    by blast
  show ?thesis
  proof (cases "truthy (pyget (map_of d ''data''))")
    case False
    with r have "map_of d' ''data'' = map_of d ''data''" by (simp add: fix_data_def after_def)
    moreover have "entry k out = None" using False
      by (cases "map_of d ''data''") (auto simp: entry_def o falsy_field)
    ultimately show ?thesis by (simp add: entry_def o)
  next
    case True
    show ?thesis
    proof (cases "is_dict (pyget (map_of d ''data''))")
      case False
      with True r(1) have "r = Some (True, JDict [])"
        by (cases "pyget (map_of d ''data'')") (auto simp: fix_data_def)
      moreover have "entry k out = None" using False
        by (cases "map_of d ''data''") (auto simp: entry_def o field_not_dict)
      ultimately show ?thesis using r(2) by (simp add: entry_def o after_def)
    next
      case dict: True
      then obtain its where x: "map_of d ''data'' = Some (JDict its)"
        by (cases "pyget (map_of d ''data'')") (auto simp: pyget_eq_simps)
      obtain b1 its' where c: "coerce_items need_data its = (b1, its')" by force
      with r True x have "map_of d' ''data'' = Some (JDict its')"
        by (auto simp: fix_data_def after_def)
      then show ?thesis using x coerce_items_map_of[OF c, of k] by (simp add: entry_def o)
    qed
  qed
qed

lemma list_all2_setD:
  "list_all2 P xs ys \<Longrightarrow> y \<in> set ys \<Longrightarrow> \<exists>x \<in> set xs. P x y"
  by (induction rule: list_all2_induct) auto

lemma cell_type_result:
  assumes "cell_run strip ch c c'"
  shows "field ''cell_type'' c' = field ''cell_type'' c"
proof -
  from assms obtain fresh b d d' where o: "c = JDict d" "c' = JDict d'"
    and p: "pass (cell_rules strip fresh (pyget (map_of d ''cell_type''))) (False, d) = Inr (b, d')"
    by (rule cell_runE)
  from cell_type_frame[OF p] show ?thesis by (simp add: o)
qed

lemma output_type_result:
  assumes "output_run ch out out'"
  shows "field ''output_type'' out' = field ''output_type'' out"
proof -
  from assms obtain b where "sanitize_output out = Inr (b, out')" unfolding output_run_def by blast
  then obtain d d' where o: "out = JDict d" "out' = JDict d'"
    and p: "pass (output_rules (pyget (map_of d ''output_type''))) (False, d) = Inr (b, d')"
    by (rule outputE)
  from output_type_frame[OF p] show ?thesis by (simp add: o)
qed

lemma fix_tags_list:
  "fix_tags (Some (JList ts)) =
     (if [JStr (to_s_text t). t \<leftarrow> ts, t \<noteq> JNull] \<noteq> ts
      then Inr (Some (True, JList [JStr (to_s_text t). t \<leftarrow> ts, t \<noteq> JNull])) else Inr None)"
  by (simp add: fix_tags_def Let_def)

lemma fix_outputs_falsy: "\<not> truthy (pyget x) \<Longrightarrow> fix_outputs x = Inr None"
  by (simp add: fix_outputs_def)

section \<open>The claims\<close>

lemmas run_defs =
  sanitize_notebook_def notebook_rules_def apply_rule_def inplace_def
  fix_nbformat_def fix_nbformat_minor_def fix_metadata_def metadata_rules_def
  fix_language_info_def fix_li_name_def fix_kernelspec_def kernelspec_rules_def fix_default_def
  fix_cells_def sanitize_cell_def draws_id_def cell_rules_def fix_id_def needs_id_def fix_to_s_def
  fix_cell_metadata_def cell_metadata_rules_def fix_tags_def fix_execution_def coerce_items_def
  items_def fix_attachments_def fix_dict_if_present_def clear_outputs_def clear_execution_count_def
  fix_outputs_def sanitize_output_def output_rules_def fix_data_def need_data_def startswith_def
  fix_execution_count_def fix_traceback_def uuid4_hex8_def digit_char_def
  str_int_def str_nat.simps Let_def notebook_def clean_metadata_def
  field_def cells_of_def outputs_of_def tags_of_def entry_def




lemma to_s_returns_on_shallow_list:
  "to_s 1000 (nest 333 (JStr ''a'')) = Inr ''a''"
  by (simp add: to_s_frames_enough to_s_frames_nest to_s_text_nest)

text \<open>
  C2.  The claim says that no document whose top level is a mapping makes
  \<^verbatim>\<open>sanitize_notebook\<close> raise, a cell without a \<^verbatim>\<open>metadata\<close> key included.  The run
  on the notebook \<^verbatim>\<open>{"cells": [{"cell_type": "markdown", "source": "text"}]}\<close> raises
  \<^verbatim>\<open>KeyError\<close>, in both modes: the test \<^verbatim>\<open>c.get("metadata", {})\<close> lets the cell pass
  and \<^verbatim>\<open>c["metadata"]\<close> on the next line fails.
\<close>

theorem missing_metadata_raises:
  "sanitize_notebook False id
     (JDict [(''cells'', JList [JDict [(''cell_type'', JStr ''markdown''), (''source'', JStr ''text'')]])])
     = Inl KeyError \<and>
   sanitize_notebook True id
     (JDict [(''cells'', JList [JDict [(''cell_type'', JStr ''markdown''), (''source'', JStr ''text'')]])])
     = Inl KeyError"
  by (simp add: run_defs)

text \<open>
  C4.  A second run in the same mode on the document that a first run leaves behind returns
  \<^verbatim>\<open>changed = False\<close> and leaves the document as it is, whatever random ids the second
  run would draw.
\<close>

theorem second_run_changes_nothing:
  assumes "sanitize_notebook strip_outputs rnd raw = Inr (changed, raw')"
  shows "sanitize_notebook strip_outputs rnd' raw' = Inr (False, raw')"
  using assms by (rule sanitize_notebook_idem)

theorem second_run_changes_nothing_witness:
  "sanitize_notebook False id
     (notebook [JDict [(''id'', JInt 0), (''source'', JList [JStr ''a'', JStr ''b'']), (''metadata'', JNull)]])
     = Inr (True, notebook [JDict [(''id'', JStr ''00000000''), (''source'', JStr ''ab''), (''metadata'', JDict [])]]) \<and>
   sanitize_notebook False Suc
     (notebook [JDict [(''id'', JStr ''00000000''), (''source'', JStr ''ab''), (''metadata'', JDict [])]])
     = Inr (False, notebook [JDict [(''id'', JStr ''00000000''), (''source'', JStr ''ab''), (''metadata'', JDict [])]])"
proof -
  have h: "sanitize_notebook False id
     (notebook [JDict [(''id'', JInt 0), (''source'', JList [JStr ''a'', JStr ''b'']), (''metadata'', JNull)]])
     = Inr (True, notebook [JDict [(''id'', JStr ''00000000''), (''source'', JStr ''ab''), (''metadata'', JDict [])]])"
    by (simp add: run_defs)
  from second_run_changes_nothing[OF h, of Suc] h show ?thesis by simp
qed

text \<open>
  C1, as amended.  In normalize mode \<^verbatim>\<open>changed\<close> is true if and only if the document tree
  after the run differs from the tree before it.  In strip mode \<^verbatim>\<open>changed = True\<close>
  implies that the tree differs.  (Trees are compared as JSON values: the integer 5 and
  the float 5.0 are different values.)
\<close>

theorem changed_iff_mutated:
  assumes "sanitize_notebook strip_outputs rnd raw = Inr (changed, raw')"
  shows "(changed \<longrightarrow> raw' \<noteq> raw) \<and> (\<not> strip_outputs \<longrightarrow> (changed \<longleftrightarrow> raw' \<noteq> raw))"
proof -
  have "raw' \<noteq> raw" if changed
    using assms that by (auto dest: sanitize_notebook_changed)
  moreover have "raw' = raw" if "\<not> changed" "\<not> strip_outputs"
    using assms that by (auto dest: sanitize_notebook_quiet)
  ultimately show ?thesis by blast
qed

theorem changed_iff_mutated_witness:
  "sanitize_notebook False id (notebook [JDict [(''id'', JStr ''''), (''metadata'', JDict [])]])
     = Inr (True, notebook [JDict [(''id'', JStr ''00000000''), (''metadata'', JDict [])]]) \<and>
   notebook [JDict [(''id'', JStr ''00000000''), (''metadata'', JDict [])]]
     \<noteq> notebook [JDict [(''id'', JStr ''''), (''metadata'', JDict [])]]"
proof -
  have h: "sanitize_notebook False id (notebook [JDict [(''id'', JStr ''''), (''metadata'', JDict [])]])
     = Inr (True, notebook [JDict [(''id'', JStr ''00000000''), (''metadata'', JDict [])]])"
    by (simp add: run_defs)
  from changed_iff_mutated[OF h] h show ?thesis by simp
qed

text \<open>
  C1 as stated fails in strip mode: on a notebook that needs no other repair and holds a
  code cell without \<^verbatim>\<open>outputs\<close>, the run adds \<^verbatim>\<open>"outputs": []\<close> to the cell and returns
  \<^verbatim>\<open>changed = False\<close> (\<^verbatim>\<open>if c.get("outputs"): changed = True\<close> guards the flag only,
  \<^verbatim>\<open>c["outputs"] = []\<close> always runs).
\<close>

theorem strip_mutates_without_changed:
  "sanitize_notebook True id
     (notebook [JDict [(''id'', JStr ''c1''), (''cell_type'', JStr ''code''), (''metadata'', JDict []),
                       (''source'', JStr ''x = 1''), (''execution_count'', JNull)]])
     = Inr (False,
        notebook [JDict [(''id'', JStr ''c1''), (''cell_type'', JStr ''code''), (''metadata'', JDict []),
                         (''source'', JStr ''x = 1''), (''execution_count'', JNull), (''outputs'', JList [])]]) \<and>
   notebook [JDict [(''id'', JStr ''c1''), (''cell_type'', JStr ''code''), (''metadata'', JDict []),
                    (''source'', JStr ''x = 1''), (''execution_count'', JNull), (''outputs'', JList [])]]
     \<noteq> notebook [JDict [(''id'', JStr ''c1''), (''cell_type'', JStr ''code''), (''metadata'', JDict []),
                       (''source'', JStr ''x = 1''), (''execution_count'', JNull)]]"
  by (simp add: run_defs)

text \<open>
  C3.  The claim says that after a run \<^verbatim>\<open>nbformat_minor\<close> is an integer.  The code means
  to ensure it: line 32 replaces by 5 whatever fails \<^verbatim>\<open>isinstance(..., int)\<close>.  But
  \<^verbatim>\<open>bool\<close> is a subclass of \<^verbatim>\<open>int\<close> in Python, so the test lets JSON \<^verbatim>\<open>true\<close>
  through: on the notebook below, which needs no other repair, the run returns
  \<^verbatim>\<open>changed = False\<close> and \<^verbatim>\<open>nbformat_minor\<close> is still \<^verbatim>\<open>true\<close>.
\<close>

theorem boolean_minor_kept:
  "sanitize_notebook False id
     (JDict [(''nbformat'', JInt 4), (''nbformat_minor'', JBool True),
             (''metadata'', clean_metadata), (''cells'', JList [])])
     = Inr (False,
        JDict [(''nbformat'', JInt 4), (''nbformat_minor'', JBool True),
               (''metadata'', clean_metadata), (''cells'', JList [])]) \<and>
   field ''nbformat_minor''
     (JDict [(''nbformat'', JInt 4), (''nbformat_minor'', JBool True),
             (''metadata'', clean_metadata), (''cells'', JList [])])
     = Some (JBool True)"
  by (simp add: run_defs)

text \<open>
  The other fields that the claim names are as it says after every run that returns, in
  either mode: \<^verbatim>\<open>nbformat\<close> is the integer 4 (or the float 4.0, which Python's \<^verbatim>\<open>!=\<close>
  takes for 4 and the run leaves alone); every cell has an \<^verbatim>\<open>id\<close> that is a non-empty
  string; the \<^verbatim>\<open>source\<close> of every cell, when present, is a string, namely the coercion of
  the source the cell came with.
\<close>

lemma format_and_cells_normal:
  assumes "sanitize_notebook strip_outputs rnd raw = Inr (changed, raw')"
  shows "(field ''nbformat'' raw' = Some (JInt 4) \<or> field ''nbformat'' raw' = Some (JFloat ''4.0'')) \<and>
         (\<forall>c' \<in> set (cells_of raw').
            (\<exists>s. field ''id'' c' = Some (JStr s) \<and> s \<noteq> []) \<and>
            (field ''source'' c' = None \<or> (\<exists>s. field ''source'' c' = Some (JStr s)))) \<and>
         list_all2 (\<lambda>c c'. field ''source'' c' = map_option (\<lambda>v. JStr (to_s_text v)) (field ''source'' c))
           (cells_of raw) (cells_of raw')"
proof -
  note cells = notebook_cells_run(1)[OF assms]
  have 1: "field ''nbformat'' raw' = Some (JInt 4) \<or> field ''nbformat'' raw' = Some (JFloat ''4.0'')"
    by (rule notebook_top(1)[OF assms])
  have 3: "(\<exists>s. field ''id'' c' = Some (JStr s) \<and> s \<noteq> []) \<and>
            (field ''source'' c' = None \<or> (\<exists>s. field ''source'' c' = Some (JStr s)))"
    if "c' \<in> set (cells_of raw')" for c'
  proof -
    from list_all2_setD[OF cells that] obtain c where r: "cell_run strip_outputs changed c c'" by blast
    from cell_source_result[OF r] have "field ''source'' c' = None \<or> (\<exists>s. field ''source'' c' = Some (JStr s))"
      by (cases "field ''source'' c") auto
    with cell_id_result[OF r] show ?thesis by blast
  qed
  have 4: "list_all2 (\<lambda>c c'. field ''source'' c' = map_option (\<lambda>v. JStr (to_s_text v)) (field ''source'' c))
           (cells_of raw) (cells_of raw')"
    using cells by (rule list_all2_mono) (rule cell_source_result)
  from 1 3 4 show ?thesis by blast
qed

lemma format_and_cells_normal_example:
  "sanitize_notebook False id
     (notebook [JDict [(''id'', JInt 0), (''source'', JList [JStr ''a'', JStr ''b'']), (''metadata'', JDict [])]])
     = Inr (True, notebook [JDict [(''id'', JStr ''00000000''), (''source'', JStr ''ab''), (''metadata'', JDict [])]]) \<and>
   field ''nbformat''
     (notebook [JDict [(''id'', JStr ''00000000''), (''source'', JStr ''ab''), (''metadata'', JDict [])]])
     = Some (JInt 4) \<and>
   cells_of (notebook [JDict [(''id'', JStr ''00000000''), (''source'', JStr ''ab''), (''metadata'', JDict [])]])
     = [JDict [(''id'', JStr ''00000000''), (''source'', JStr ''ab''), (''metadata'', JDict [])]]"
proof -
  have h: "sanitize_notebook False id
     (notebook [JDict [(''id'', JInt 0), (''source'', JList [JStr ''a'', JStr ''b'']), (''metadata'', JDict [])]])
     = Inr (True, notebook [JDict [(''id'', JStr ''00000000''), (''source'', JStr ''ab''), (''metadata'', JDict [])]])"
    by (simp add: run_defs)
  from format_and_cells_normal[OF h] h show ?thesis by (simp add: run_defs)
qed

text \<open>
  C5, as amended.  In strip mode, for every code cell of a document on which the run
  completes, the cell after the run is a code cell whose \<^verbatim>\<open>outputs\<close> is the empty list,
  whatever it was before (absent included); its \<^verbatim>\<open>execution_count\<close> is null when the key
  was present and stays absent when the key was absent; and \<^verbatim>\<open>changed\<close> is true when
  \<^verbatim>\<open>outputs\<close> was true in Python's sense (non-empty) or \<^verbatim>\<open>execution_count\<close> was not
  null.
\<close>

theorem strip_clears_code_cells:
  assumes "sanitize_notebook True rnd raw = Inr (changed, raw')"
  shows "list_all2
           (\<lambda>c c'. field ''cell_type'' c = Some (JStr ''code'') \<longrightarrow>
              field ''cell_type'' c' = Some (JStr ''code'') \<and>
              field ''outputs'' c' = Some (JList []) \<and>
              field ''execution_count'' c' =
                (if field ''execution_count'' c = None then None else Some JNull) \<and>
              (truthy (pyget (field ''outputs'' c)) \<or> pyget (field ''execution_count'' c) \<noteq> JNull
                 \<longrightarrow> changed))
           (cells_of raw) (cells_of raw')"
  using notebook_cells_run(1)[OF assms]
proof (rule list_all2_mono)
  fix c c' assume r: "cell_run True changed c c'"
  show "field ''cell_type'' c = Some (JStr ''code'') \<longrightarrow>
              field ''cell_type'' c' = Some (JStr ''code'') \<and>
              field ''outputs'' c' = Some (JList []) \<and>
              field ''execution_count'' c' =
                (if field ''execution_count'' c = None then None else Some JNull) \<and>
              (truthy (pyget (field ''outputs'' c)) \<or> pyget (field ''execution_count'' c) \<noteq> JNull
                 \<longrightarrow> changed)"
    using cell_strip_result[OF r] cell_type_result[OF r] by auto
qed

theorem strip_clears_code_cells_witness:
  "sanitize_notebook True id
     (notebook [JDict [(''id'', JStr ''c1''), (''cell_type'', JStr ''code''), (''metadata'', JDict []),
                       (''outputs'', JList [JDict [(''output_type'', JStr ''stream'')]]),
                       (''execution_count'', JInt 3)]])
     = Inr (True,
        notebook [JDict [(''id'', JStr ''c1''), (''cell_type'', JStr ''code''), (''metadata'', JDict []),
                         (''outputs'', JList []), (''execution_count'', JNull)]]) \<and>
   field ''outputs''
     (JDict [(''id'', JStr ''c1''), (''cell_type'', JStr ''code''), (''metadata'', JDict []),
             (''outputs'', JList []), (''execution_count'', JNull)]) = Some (JList []) \<and>
   field ''execution_count''
     (JDict [(''id'', JStr ''c1''), (''cell_type'', JStr ''code''), (''metadata'', JDict []),
             (''outputs'', JList []), (''execution_count'', JNull)]) = Some JNull"
proof -
  have h: "sanitize_notebook True id
     (notebook [JDict [(''id'', JStr ''c1''), (''cell_type'', JStr ''code''), (''metadata'', JDict []),
                       (''outputs'', JList [JDict [(''output_type'', JStr ''stream'')]]),
                       (''execution_count'', JInt 3)]])
     = Inr (True,
        notebook [JDict [(''id'', JStr ''c1''), (''cell_type'', JStr ''code''), (''metadata'', JDict []),
                         (''outputs'', JList []), (''execution_count'', JNull)]])"
    by (simp add: run_defs)
  from strip_clears_code_cells[OF h] h show ?thesis by (simp add: run_defs)
qed

text \<open>
  C5 as stated fails for a code cell that comes without \<^verbatim>\<open>execution_count\<close>: the run
  assigns \<^verbatim>\<open>c["execution_count"] = None\<close> only under
  \<^verbatim>\<open>if c.get("execution_count") is not None\<close>, so the key stays absent (here in a
  document that is written back, since the outputs were stripped).
\<close>

theorem absent_execution_count_stays_absent:
  "sanitize_notebook True id
     (notebook [JDict [(''id'', JStr ''c1''), (''cell_type'', JStr ''code''), (''metadata'', JDict []),
                       (''outputs'', JList [JDict [(''output_type'', JStr ''stream'')]])]])
     = Inr (True,
        notebook [JDict [(''id'', JStr ''c1''), (''cell_type'', JStr ''code''), (''metadata'', JDict []),
                         (''outputs'', JList [])]]) \<and>
   field ''execution_count''
     (JDict [(''id'', JStr ''c1''), (''cell_type'', JStr ''code''), (''metadata'', JDict []),
             (''outputs'', JList [])]) = None"
  by (simp add: run_defs)

text \<open>
  C6, as amended.  After a run that completes, the top-level \<^verbatim>\<open>metadata\<close> is a mapping
  that holds a \<^verbatim>\<open>language_info\<close> mapping whose \<^verbatim>\<open>name\<close> is a string, and a
  \<^verbatim>\<open>kernelspec\<close> mapping whose \<^verbatim>\<open>name\<close> and \<^verbatim>\<open>display_name\<close> are present and not
  null.
\<close>

theorem metadata_filled:
  assumes "sanitize_notebook strip_outputs rnd raw = Inr (changed, raw')"
  shows "\<exists>md li s ks. field ''metadata'' raw' = Some (JDict md)
           \<and> map_of md ''language_info'' = Some (JDict li) \<and> map_of li ''name'' = Some (JStr s)
           \<and> map_of md ''kernelspec'' = Some (JDict ks)
           \<and> pyget (map_of ks ''name'') \<noteq> JNull \<and> pyget (map_of ks ''display_name'') \<noteq> JNull"
  using assms by (rule notebook_top(3))

theorem metadata_filled_witness:
  "sanitize_notebook False id (JDict [])
     = Inr (True, notebook []) \<and>
   field ''metadata'' (notebook []) = Some clean_metadata"
proof -
  have h: "sanitize_notebook False id (JDict []) = Inr (True, notebook [])"
    by (simp add: run_defs)
  from metadata_filled[OF h] h show ?thesis by (simp add: run_defs)
qed

text \<open>
  C6 as stated fails where it says that the \<^verbatim>\<open>name\<close> and \<^verbatim>\<open>display_name\<close> of
  \<^verbatim>\<open>kernelspec\<close> are strings: the run tests them with \<^verbatim>\<open>is None\<close> only, and keeps the
  numbers 5 and 7.
\<close>

theorem kernelspec_numbers_kept:
  "sanitize_notebook False id
     (JDict [(''nbformat'', JInt 4), (''nbformat_minor'', JInt 5),
             (''metadata'', JDict [(''language_info'', JDict [(''name'', JStr ''python'')]),
                                   (''kernelspec'', JDict [(''name'', JInt 5), (''display_name'', JInt 7)])]),
             (''cells'', JList [])])
     = Inr (False,
        JDict [(''nbformat'', JInt 4), (''nbformat_minor'', JInt 5),
               (''metadata'', JDict [(''language_info'', JDict [(''name'', JStr ''python'')]),
                                     (''kernelspec'', JDict [(''name'', JInt 5), (''display_name'', JInt 7)])]),
               (''cells'', JList [])]) \<and>
   field ''name'' (JDict [(''name'', JInt 5), (''display_name'', JInt 7)]) = Some (JInt 5) \<and>
   field ''display_name'' (JDict [(''name'', JInt 5), (''display_name'', JInt 7)]) = Some (JInt 7)"
  by (simp add: run_defs)

text \<open>
  C7.  In normalize mode, on a document on which the run completes, take an output of a code
  cell whose \<^verbatim>\<open>output_type\<close> is \<^verbatim>\<open>display_data\<close> or \<^verbatim>\<open>execute_result\<close>.  After the
  run it has the same \<^verbatim>\<open>output_type\<close>; every entry of its \<^verbatim>\<open>data\<close> whose key starts
  with \<^verbatim>\<open>text/\<close> or \<^verbatim>\<open>image/\<close> (or is \<^verbatim>\<open>text/plain\<close>) is a string; every other
  entry is what it was when that was a mapping, a sequence or a string, and \<open>to_s_text\<close> of
  what it was otherwise.  Outputs and cells correspond by position.
\<close>

theorem data_entries_coerced:
  assumes "sanitize_notebook False rnd raw = Inr (changed, raw')"
  shows "list_all2
           (\<lambda>c c'. field ''cell_type'' c = Some (JStr ''code'') \<longrightarrow>
              list_all2
                (\<lambda>out out'.
                   field ''output_type'' out = Some (JStr ''display_data'') \<or>
                   field ''output_type'' out = Some (JStr ''execute_result'') \<longrightarrow>
                   field ''output_type'' out' = field ''output_type'' out \<and>
                   (\<forall>k v'. entry k out' = Some v' \<and>
                       (startswith k ''text/'' \<or> k = ''text/plain'' \<or> startswith k ''image/'')
                       \<longrightarrow> is_str v') \<and>
                   (\<forall>k v. entry k out = Some v \<and>
                       \<not> (startswith k ''text/'' \<or> k = ''text/plain'' \<or> startswith k ''image/'')
                       \<longrightarrow> entry k out' =
                             Some (if is_dict v \<or> is_list v \<or> is_str v then v else JStr (to_s_text v))) \<and>
                   (\<forall>k. entry k out' =
                       map_option (\<lambda>v. if need_data k v then JStr (to_s_text v) else v) (entry k out)))
                (outputs_of c) (outputs_of c'))
           (cells_of raw) (cells_of raw')"
  using notebook_cells_run(1)[OF assms]
proof (rule list_all2_mono)
  fix c c' assume r: "cell_run False changed c c'"
  let ?P = "\<lambda>out out'.
                   field ''output_type'' out = Some (JStr ''display_data'') \<or>
                   field ''output_type'' out = Some (JStr ''execute_result'') \<longrightarrow>
                   field ''output_type'' out' = field ''output_type'' out \<and>
                   (\<forall>k v'. entry k out' = Some v' \<and>
                       (startswith k ''text/'' \<or> k = ''text/plain'' \<or> startswith k ''image/'')
                       \<longrightarrow> is_str v') \<and>
                   (\<forall>k v. entry k out = Some v \<and>
                       \<not> (startswith k ''text/'' \<or> k = ''text/plain'' \<or> startswith k ''image/'')
                       \<longrightarrow> entry k out' =
                             Some (if is_dict v \<or> is_list v \<or> is_str v then v else JStr (to_s_text v))) \<and>
                   (\<forall>k. entry k out' =
                       map_option (\<lambda>v. if need_data k v then JStr (to_s_text v) else v) (entry k out))"
  show "field ''cell_type'' c = Some (JStr ''code'') \<longrightarrow> list_all2 ?P (outputs_of c) (outputs_of c')"
  proof
    assume code: "field ''cell_type'' c = Some (JStr ''code'')"
    show "list_all2 ?P (outputs_of c) (outputs_of c')"
      using cell_outputs_result(3)[OF r code]
    proof (rule list_all2_mono)
      fix out out' assume q: "output_run changed out out'"
      show "?P out out'"
      proof
        assume ot: "field ''output_type'' out = Some (JStr ''display_data'') \<or>
                   field ''output_type'' out = Some (JStr ''execute_result'')"
        have e: "entry k out' = map_option (\<lambda>v. if need_data k v then JStr (to_s_text v) else v) (entry k out)" for k
          by (rule output_data_result[OF q ot])
        have 1: "is_str v'" if "entry k out' = Some v'"
          "startswith k ''text/'' \<or> k = ''text/plain'' \<or> startswith k ''image/''" for k v'
        proof -
          from that(1) e[of k] obtain v where "v' = (if need_data k v then JStr (to_s_text v) else v)" by auto
          then show ?thesis using that(2) by (cases "need_data k v") (auto simp: need_data_def)
        qed
        have 2: "entry k out' = Some (if is_dict v \<or> is_list v \<or> is_str v then v else JStr (to_s_text v))"
          if "entry k out = Some v"
            "\<not> (startswith k ''text/'' \<or> k = ''text/plain'' \<or> startswith k ''image/'')" for k v
          using that e[of k] by (auto simp: need_data_def)
        from output_type_result[OF q] 1 2 e
        show "field ''output_type'' out' = field ''output_type'' out \<and>
                   (\<forall>k v'. entry k out' = Some v' \<and>
                       (startswith k ''text/'' \<or> k = ''text/plain'' \<or> startswith k ''image/'')
                       \<longrightarrow> is_str v') \<and>
                   (\<forall>k v. entry k out = Some v \<and>
                       \<not> (startswith k ''text/'' \<or> k = ''text/plain'' \<or> startswith k ''image/'')
                       \<longrightarrow> entry k out' =
                             Some (if is_dict v \<or> is_list v \<or> is_str v then v else JStr (to_s_text v))) \<and>
                   (\<forall>k. entry k out' =
                       map_option (\<lambda>v. if need_data k v then JStr (to_s_text v) else v) (entry k out))"
          by blast
      qed
    qed
  qed
qed

theorem data_entries_coerced_witness:
  "sanitize_notebook False id
     (notebook [JDict [(''id'', JStr ''c1''), (''cell_type'', JStr ''code''), (''metadata'', JDict []),
                       (''outputs'', JList [JDict [(''output_type'', JStr ''execute_result''),
                                                   (''data'', JDict [(''text/plain'', JInt 42)])]])]])
     = Inr (True,
        notebook [JDict [(''id'', JStr ''c1''), (''cell_type'', JStr ''code''), (''metadata'', JDict []),
                         (''outputs'', JList [JDict [(''output_type'', JStr ''execute_result''),
                                                     (''data'', JDict [(''text/plain'', JStr ''42'')])]])]]) \<and>
   entry ''text/plain''
     (JDict [(''output_type'', JStr ''execute_result''), (''data'', JDict [(''text/plain'', JStr ''42'')])])
     = Some (JStr ''42'')"
proof -
  have h: "sanitize_notebook False id
     (notebook [JDict [(''id'', JStr ''c1''), (''cell_type'', JStr ''code''), (''metadata'', JDict []),
                       (''outputs'', JList [JDict [(''output_type'', JStr ''execute_result''),
                                                   (''data'', JDict [(''text/plain'', JInt 42)])]])]])
     = Inr (True,
        notebook [JDict [(''id'', JStr ''c1''), (''cell_type'', JStr ''code''), (''metadata'', JDict []),
                         (''outputs'', JList [JDict [(''output_type'', JStr ''execute_result''),
                                                     (''data'', JDict [(''text/plain'', JStr ''42'')])]])]])"
    by (simp add: run_defs)
  from data_entries_coerced[OF h] h show ?thesis by (simp add: run_defs)
qed

text \<open>
  C8.  On a document on which the run completes (either mode), for every cell whose
  \<^verbatim>\<open>metadata.tags\<close> is a list, the tags after the run are the \<open>to_s_text\<close> of the entries
  that are not null, in their order; \<^verbatim>\<open>changed\<close> is true when that list differs from
  the one the cell came with; and the statement assigns (and sets \<^verbatim>\<open>changed\<close>) only
  when the two lists differ.
\<close>

theorem tags_coerced:
  assumes "sanitize_notebook strip_outputs rnd raw = Inr (changed, raw')"
  shows "list_all2
           (\<lambda>c c'. \<forall>ts. tags_of c = Some (JList ts) \<longrightarrow>
              tags_of c' = Some (JList [JStr (to_s_text t). t \<leftarrow> ts, t \<noteq> JNull]) \<and>
              ([JStr (to_s_text t). t \<leftarrow> ts, t \<noteq> JNull] \<noteq> ts \<longrightarrow> changed))
           (cells_of raw) (cells_of raw') \<and>
         (\<forall>ts. fix_tags (Some (JList ts)) =
            (if [JStr (to_s_text t). t \<leftarrow> ts, t \<noteq> JNull] \<noteq> ts
             then Inr (Some (True, JList [JStr (to_s_text t). t \<leftarrow> ts, t \<noteq> JNull])) else Inr None))"
proof
  show "list_all2
           (\<lambda>c c'. \<forall>ts. tags_of c = Some (JList ts) \<longrightarrow>
              tags_of c' = Some (JList [JStr (to_s_text t). t \<leftarrow> ts, t \<noteq> JNull]) \<and>
              ([JStr (to_s_text t). t \<leftarrow> ts, t \<noteq> JNull] \<noteq> ts \<longrightarrow> changed))
           (cells_of raw) (cells_of raw')"
    using notebook_cells_run(1)[OF assms]
    by (rule list_all2_mono) (use cell_tags_result in blast)
  show "\<forall>ts. fix_tags (Some (JList ts)) =
            (if [JStr (to_s_text t). t \<leftarrow> ts, t \<noteq> JNull] \<noteq> ts
             then Inr (Some (True, JList [JStr (to_s_text t). t \<leftarrow> ts, t \<noteq> JNull])) else Inr None)"
    by (simp add: fix_tags_list)
qed

theorem tags_coerced_witness:
  "sanitize_notebook False id
     (notebook [JDict [(''id'', JStr ''c1''),
                       (''metadata'', JDict [(''tags'', JList [JStr ''x'', JNull, JInt 3])])]])
     = Inr (True,
        notebook [JDict [(''id'', JStr ''c1''),
                         (''metadata'', JDict [(''tags'', JList [JStr ''x'', JStr ''3''])])]]) \<and>
   tags_of (JDict [(''id'', JStr ''c1''), (''metadata'', JDict [(''tags'', JList [JStr ''x'', JStr ''3''])])])
     = Some (JList [JStr ''x'', JStr ''3''])"
proof -
  have h: "sanitize_notebook False id
     (notebook [JDict [(''id'', JStr ''c1''),
                       (''metadata'', JDict [(''tags'', JList [JStr ''x'', JNull, JInt 3])])]])
     = Inr (True,
        notebook [JDict [(''id'', JStr ''c1''),
                         (''metadata'', JDict [(''tags'', JList [JStr ''x'', JStr ''3''])])]])"
    by (simp add: run_defs)
  from tags_coerced[OF h] h show ?thesis by (simp add: run_defs)
qed

text \<open>
  C10.  In normalize mode, on a document on which the run completes, for every code cell:
  when \<^verbatim>\<open>outputs\<close> is absent, null, an empty list or any other value that is false in
  Python's sense (such as an empty mapping), the key is after the run what it was before
  (absent when it was absent), and the statement neither assigns nor sets \<^verbatim>\<open>changed\<close>;
  when \<^verbatim>\<open>outputs\<close> is true in Python's sense and not a list, it is replaced by the empty
  list and \<^verbatim>\<open>changed\<close> is true; and a list of outputs keeps its length.
\<close>

theorem falsy_outputs_left_alone:
  assumes "sanitize_notebook False rnd raw = Inr (changed, raw')"
  shows "list_all2
           (\<lambda>c c'. field ''cell_type'' c = Some (JStr ''code'') \<longrightarrow>
              (\<not> truthy (pyget (field ''outputs'' c)) \<longrightarrow> field ''outputs'' c' = field ''outputs'' c) \<and>
              (truthy (pyget (field ''outputs'' c)) \<and> \<not> is_list (pyget (field ''outputs'' c)) \<longrightarrow>
                 field ''outputs'' c' = Some (JList []) \<and> changed) \<and>
              length (outputs_of c') = length (outputs_of c))
           (cells_of raw) (cells_of raw') \<and>
         (\<forall>x. \<not> truthy (pyget x) \<longrightarrow> fix_outputs x = Inr None)"
proof
  show "list_all2
           (\<lambda>c c'. field ''cell_type'' c = Some (JStr ''code'') \<longrightarrow>
              (\<not> truthy (pyget (field ''outputs'' c)) \<longrightarrow> field ''outputs'' c' = field ''outputs'' c) \<and>
              (truthy (pyget (field ''outputs'' c)) \<and> \<not> is_list (pyget (field ''outputs'' c)) \<longrightarrow>
                 field ''outputs'' c' = Some (JList []) \<and> changed) \<and>
              length (outputs_of c') = length (outputs_of c))
           (cells_of raw) (cells_of raw')"
    using notebook_cells_run(1)[OF assms]
  proof (rule list_all2_mono)
    fix c c' assume r: "cell_run False changed c c'"
    show "field ''cell_type'' c = Some (JStr ''code'') \<longrightarrow>
              (\<not> truthy (pyget (field ''outputs'' c)) \<longrightarrow> field ''outputs'' c' = field ''outputs'' c) \<and>
              (truthy (pyget (field ''outputs'' c)) \<and> \<not> is_list (pyget (field ''outputs'' c)) \<longrightarrow>
                 field ''outputs'' c' = Some (JList []) \<and> changed) \<and>
              length (outputs_of c') = length (outputs_of c)"
      using cell_outputs_result(1,2)[OF r] list_all2_lengthD[OF cell_outputs_result(3)[OF r]]
      by auto
  qed
  show "\<forall>x. \<not> truthy (pyget x) \<longrightarrow> fix_outputs x = Inr None"
    by (simp add: fix_outputs_falsy)
qed

theorem falsy_outputs_left_alone_witness:
  "sanitize_notebook False id
     (notebook [JDict [(''id'', JStr ''c1''), (''cell_type'', JStr ''code''), (''metadata'', JDict []),
                       (''outputs'', JDict [])],
                JDict [(''id'', JStr ''c2''), (''cell_type'', JStr ''code''), (''metadata'', JDict [])]])
     = Inr (False,
        notebook [JDict [(''id'', JStr ''c1''), (''cell_type'', JStr ''code''), (''metadata'', JDict []),
                         (''outputs'', JDict [])],
                  JDict [(''id'', JStr ''c2''), (''cell_type'', JStr ''code''), (''metadata'', JDict [])]]) \<and>
   field ''outputs''
     (JDict [(''id'', JStr ''c1''), (''cell_type'', JStr ''code''), (''metadata'', JDict []),
             (''outputs'', JDict [])]) = Some (JDict []) \<and>
   field ''outputs''
     (JDict [(''id'', JStr ''c2''), (''cell_type'', JStr ''code''), (''metadata'', JDict [])]) = None"
proof -
  have h: "sanitize_notebook False id
     (notebook [JDict [(''id'', JStr ''c1''), (''cell_type'', JStr ''code''), (''metadata'', JDict []),
                       (''outputs'', JDict [])],
                JDict [(''id'', JStr ''c2''), (''cell_type'', JStr ''code''), (''metadata'', JDict [])]])
     = Inr (False,
        notebook [JDict [(''id'', JStr ''c1''), (''cell_type'', JStr ''code''), (''metadata'', JDict []),
                         (''outputs'', JDict [])],
                  JDict [(''id'', JStr ''c2''), (''cell_type'', JStr ''code''), (''metadata'', JDict [])]])"
    by (simp add: run_defs)
  from falsy_outputs_left_alone[OF h] h show ?thesis by (simp add: run_defs)
qed

end
